theory Spec2Isabelle
  imports Complex_Main
begin

section \<open>Numbers, arrays and failures of the source\<close>

text \<open>
  The source is TypeScript. Its numbers are IEEE doubles: a finite number is a rational,
  and each arithmetic operation returns its exact result rounded to the nearest double,
  ties to the even significand (\<open>rd\<close> below). A thrown \<open>Error(msg)\<close> is the value
  \<open>Inl (Error msg)\<close>. Where the source would go on with \<open>NaN\<close>, \<open>undefined\<close> or an
  infinity in a number (a read past the end of an array, a division by zero, a result
  too large for a double), the model stops with \<open>Inl NonFinite\<close>: such a value lies
  outside the number model, and what the source does with it is not modelled.

  Shapes, strides, indices and offsets hold integers and are of type \<^typ>\<open>int\<close>; the
  arguments of a function are numbers of the program, hence doubles. Comparisons,
  \<open>Math.max\<close>, \<open>Math.floor\<close> and the remainder \<open>%\<close> are exact on doubles. The products,
  sums, differences and quotients of sizes, strides, offsets and pads are rounded
  (\<open>num_mul\<close>, \<open>num_add\<close>, \<open>num_sub\<close>, \<open>num_floor_div\<close> on integers, \<open>js_add\<close>, \<open>js_sub\<close>,
  \<open>js_mul\<close>, \<open>js_div\<close> on rationals). Taken exactly are: the arithmetic on array lengths
  and loop counters (an array has fewer than \<open>2^32\<close> elements); the index sums of the
  block copy (a sum of integers that exceeds a length before rounding exceeds it after);
  the sum \<open>axis + tensorRank\<close> of \<open>getActualAxisFromNegativeValue\<close>; and the sums and the
  quotient of \<open>SplitUtil\<close>. The last two are exact in doubles as long as the values are
  at most \<open>2^53\<close> in magnitude.
\<close>

datatype error = Error string | NonFinite

text \<open>An array read \<open>xs[i]\<close>: \<open>undefined\<close> (here \<open>None\<close>) outside \<open>0 .. length - 1\<close>.\<close>

definition js_get :: "'a list \<Rightarrow> int \<Rightarrow> 'a option" where
  "js_get xs i = (if 0 \<le> i \<and> i < int (length xs) then Some (xs ! nat i) else None)"

text \<open>
  An array that the code creates with \<open>new Array(n)\<close> or writes by index is a list of
  cells, \<open>None\<close> being a hole. A write \<open>xs[i] = v\<close> past the end extends the array with
  holes; a write at a negative index sets a property of the object and leaves the
  elements as they are.
\<close>

definition js_set :: "'a option list \<Rightarrow> int \<Rightarrow> 'a \<Rightarrow> 'a option list" where
  "js_set xs i v =
     (if i < 0 then xs
      else if nat i < length xs then xs[nat i := Some v]
      else xs @ replicate (nat i - length xs) None @ [Some v])"

text \<open>The remainder \<open>a % b\<close> of two integers: truncated, the sign of \<open>a\<close>; \<open>NaN\<close> for \<open>b = 0\<close>.\<close>

definition js_rem :: "int \<Rightarrow> int \<Rightarrow> int option" where
  "js_rem a b = (if b = 0 then None else Some (sgn a * (\<bar>a\<bar> mod \<bar>b\<bar>)))"

text \<open>A read \<open>xs[i]\<close> of an array of cells: \<open>undefined\<close> for a hole and outside the array.\<close>

definition cell :: "'a option list \<Rightarrow> int \<Rightarrow> 'a option" where
  "cell xs i = (case js_get xs i of Some (Some v) \<Rightarrow> Some v | _ \<Rightarrow> None)"

subsection \<open>Doubles\<close>

text \<open>The number of binary digits of a positive integer.\<close>

function bits :: "int \<Rightarrow> int" where
  "bits n = (if n \<le> 0 then 0 else 1 + bits (n div 2))"
  by pat_completeness auto
termination
  by (relation "measure nat") auto

declare bits.simps [simp del]

text \<open>The binary exponent of a rational \<open>x\<close> other than \<open>0\<close>: \<open>2^e \<le> |x| < 2^(e+1)\<close>.\<close>

definition ilog2 :: "rat \<Rightarrow> int" where
  "ilog2 x =
     (let (p, q) = quotient_of \<bar>x\<bar>; k = bits p - bits q
      in if power_int 2 k \<le> \<bar>x\<bar> then k else k - 1)"

text \<open>The nearest integer, a tie going to the even one.\<close>

definition round_half_even :: "rat \<Rightarrow> int" where
  "round_half_even y =
     (let f = \<lfloor>y\<rfloor>; d = y - of_int f
      in if d < 1 / 2 then f else if 1 / 2 < d then f + 1 else if even f then f else f + 1)"

text \<open>
  Rounding to the nearest double, ties to even: a double has 53 significant bits, so
  the unit of the last place of a number of exponent \<open>e\<close> is \<open>2^(e - 52)\<close>, and \<open>2^(-1074)\<close>
  for the subnormal numbers. The exponent is not bounded above here; \<open>dbl\<close> turns a
  rounded value of \<open>2^1024\<close> or more, an infinity in the program, into \<open>NonFinite\<close>.
\<close>

definition rd :: "rat \<Rightarrow> rat" where
  "rd x =
     (if x = 0 then 0
      else let u = power_int 2 (max (ilog2 x - 52) (- 1074))
           in of_int (round_half_even (x / u)) * u)"

definition dbl :: "rat \<Rightarrow> error + rat" where
  "dbl x = (let r = rd x in if r \<noteq> 0 \<and> 1024 \<le> ilog2 r then Inl NonFinite else Inr r)"

text \<open>The operators \<open>+\<close>, \<open>-\<close>, \<open>*\<close> and \<open>/\<close> of the program on finite numbers.\<close>

definition js_add :: "rat \<Rightarrow> rat \<Rightarrow> error + rat" where
  "js_add x y = dbl (x + y)"

definition js_sub :: "rat \<Rightarrow> rat \<Rightarrow> error + rat" where
  "js_sub x y = dbl (x - y)"

definition js_mul :: "rat \<Rightarrow> rat \<Rightarrow> error + rat" where
  "js_mul x y = dbl (x * y)"

definition js_div :: "rat \<Rightarrow> rat \<Rightarrow> error + rat" where
  "js_div x y = (if y = 0 then Inl NonFinite else dbl (x / y))"

text \<open>
  The same on numbers that hold integers. A sum, a difference or a product of integers
  is an integer and so is its rounding (lemma \<open>rd_of_int_integer\<close>), which \<open>\<lfloor>r\<rfloor>\<close> reads
  back; \<open>num_floor_div a b\<close> is \<open>Math.floor(a / b)\<close>.
\<close>

definition num_add :: "int \<Rightarrow> int \<Rightarrow> error + int" where
  "num_add a b = (case js_add (of_int a) (of_int b) of Inl e \<Rightarrow> Inl e | Inr r \<Rightarrow> Inr \<lfloor>r\<rfloor>)"

definition num_sub :: "int \<Rightarrow> int \<Rightarrow> error + int" where
  "num_sub a b = (case js_sub (of_int a) (of_int b) of Inl e \<Rightarrow> Inl e | Inr r \<Rightarrow> Inr \<lfloor>r\<rfloor>)"

definition num_mul :: "int \<Rightarrow> int \<Rightarrow> error + int" where
  "num_mul a b = (case js_mul (of_int a) (of_int b) of Inl e \<Rightarrow> Inl e | Inr r \<Rightarrow> Inr \<lfloor>r\<rfloor>)"

definition num_floor_div :: "int \<Rightarrow> int \<Rightarrow> error + int" where
  "num_floor_div a b =
     (case js_div (of_int a) (of_int b) of Inl e \<Rightarrow> Inl e | Inr r \<Rightarrow> Inr \<lfloor>r\<rfloor>)"

text \<open>Sequencing of steps that may stop: the first failure is the result.\<close>

definition bindE :: "error + 'a \<Rightarrow> ('a \<Rightarrow> error + 'b) \<Rightarrow> error + 'b" where
  "bindE r f = (case r of Inl e \<Rightarrow> Inl e | Inr v \<Rightarrow> f v)"

section \<open>BroadcastUtil\<close>

text \<open>
  \<^verbatim>\<open>
  static calcMatMulShape(a: [number, number], b: [number, number]): [number, number]|undefined {
    return (a[1] !== b[0]) ? undefined : [a[0], b[1]];
  }
  \<close>
\<close>

definition calcMatMulShape :: "int \<times> int \<Rightarrow> int \<times> int \<Rightarrow> (int \<times> int) option" where
  "calcMatMulShape a b = (if snd a \<noteq> fst b then None else Some (fst a, snd b))"

text \<open>
  The loop of \<open>calcShape\<close>, \<open>for (let i = isMatMul ? 3 : 1; i <= crank; i++)\<close>:
  \<^verbatim>\<open>
      const aLen = arank - i < 0 ? 1 : adims[arank - i];
      const bLen = brank - i < 0 ? 1 : bdims[brank - i];
      if (aLen !== bLen && aLen > 1 && bLen > 1) {
        return undefined;
      }
      cdims[crank - i] = Math.max(aLen, bLen);
  \<close>
  It starts at \<open>i = 1\<close> or \<open>i = 3\<close>, so \<open>arank - i\<close> is below \<open>arank\<close> and the guarded
  reads are inside the arrays.
\<close>

function calcShape_loop ::
  "int list \<Rightarrow> int list \<Rightarrow> int \<Rightarrow> int \<Rightarrow> int option list \<Rightarrow> int option list option" where
  "calcShape_loop adims bdims crank i cdims =
     (if i \<le> crank then
        (let arank = int (length adims);
             brank = int (length bdims);
             aLen = (if arank - i < 0 then 1 else adims ! nat (arank - i));
             bLen = (if brank - i < 0 then 1 else bdims ! nat (brank - i))
         in if aLen \<noteq> bLen \<and> aLen > 1 \<and> bLen > 1 then None
            else calcShape_loop adims bdims crank (i + 1) (js_set cdims (crank - i) (max aLen bLen)))
      else Some cdims)"
  by pat_completeness auto
termination
  by (relation "measure (\<lambda>(adims, bdims, crank, i, cdims). nat (crank + 1 - i))") auto

declare calcShape_loop.simps [simp del]

text \<open>
  \<^verbatim>\<open>
  static calcShape(adims, bdims, isMatMul = false): number[]|undefined {
    const arank = adims.length;
    const brank = bdims.length;
    const crank = Math.max(adims.length, bdims.length);
    const cdims = new Array<number>(crank);
    if (isMatMul) {
      if (arank < 2 || brank < 2) {
        return undefined;
      }
      const cShapeMatMul =
          BroadcastUtil.calcMatMulShape([adims[arank - 2], adims[arank - 1]], [bdims[brank - 2], bdims[brank - 1]]);
      if (cShapeMatMul === undefined) {
        return undefined;
      }
      [cdims[crank - 2], cdims[crank - 1]] = cShapeMatMul;
    }
    for (...) { ... }
    return cdims;
  }
  \<close>
  The result \<open>undefined\<close> is \<open>None\<close>.
\<close>

definition calcShape :: "int list \<Rightarrow> int list \<Rightarrow> bool \<Rightarrow> int option list option" where
  "calcShape adims bdims isMatMul =
     (let arank = length adims;
          brank = length bdims;
          crank = int (max (length adims) (length bdims));
          cdims = replicate (nat crank) None
      in if isMatMul then
           (if arank < 2 \<or> brank < 2 then None
            else case calcMatMulShape (adims ! (arank - 2), adims ! (arank - 1))
                                      (bdims ! (brank - 2), bdims ! (brank - 1)) of
                   None \<Rightarrow> None
                 | Some (m, n) \<Rightarrow>
                     calcShape_loop adims bdims crank 3
                       (js_set (js_set cdims (crank - 2) m) (crank - 1) n))
         else calcShape_loop adims bdims crank 1 cdims)"

text \<open>
  \<^verbatim>\<open>
  static isValidBroadcast(shape, finalShape): boolean {
    const inputRank = shape.length;
    const finalRank = finalShape.length;
    if (inputRank > finalRank) {
      return false;
    }
    for (let i = 1; i <= inputRank; i++) {
      if (shape[inputRank - i] !== 1 && shape[inputRank - i] !== finalShape[finalRank - i]) {
        return false;
      }
    }
    return true;
  }
  \<close>
  The loop runs only when \<open>inputRank \<le> finalRank\<close>, with \<open>1 \<le> i \<le> inputRank\<close>: both reads
  are inside the arrays.
\<close>

function isValidBroadcast_loop :: "int list \<Rightarrow> int list \<Rightarrow> int \<Rightarrow> bool" where
  "isValidBroadcast_loop shape finalShape i =
     (let inputRank = int (length shape); finalRank = int (length finalShape)
      in if i \<le> inputRank then
           (if shape ! nat (inputRank - i) \<noteq> 1
               \<and> shape ! nat (inputRank - i) \<noteq> finalShape ! nat (finalRank - i)
            then False
            else isValidBroadcast_loop shape finalShape (i + 1))
         else True)"
  by pat_completeness auto
termination
  by (relation "measure (\<lambda>(shape, finalShape, i). nat (int (length shape) + 1 - i))") auto

declare isValidBroadcast_loop.simps [simp del]

definition isValidBroadcast :: "int list \<Rightarrow> int list \<Rightarrow> bool" where
  "isValidBroadcast shape finalShape =
     (if length shape > length finalShape then False
      else isValidBroadcast_loop shape finalShape 1)"

section \<open>GemmUtil\<close>

text \<open>
  \<^verbatim>\<open>
  static getShapeOfGemmResult(leftShape, transLeft, rightShape, transRight, biasShape): number[] {
    if (leftShape.length !== 2 || rightShape.length !== 2) {
      throw new Error(`shape need to be of size 2`);
    }
    let M: number; let K: number; let N: number;
    if (transLeft) { M = leftShape[1]; K = leftShape[0]; }
    else { M = leftShape[0]; K = leftShape[1]; }
    let kDim = -1;
    if (transRight) { N = rightShape[0]; kDim = 1; }
    else { N = rightShape[1]; kDim = 0; }
    if (rightShape[kDim] !== K) {
      throw new Error(`dimension mismatch`);
    }
    if (M <= 0 || N <= 0 || K <= 0) {
      throw new Error(`invalid shape specified`);
    }
    if (!BroadcastUtil.isValidBroadcast(biasShape, [M, N])) {
      throw new Error(`gemm: invalid bias shape for broadcast`);
    }
    return [M, N];
  }
  \<close>
\<close>

definition getShapeOfGemmResult ::
  "int list \<Rightarrow> bool \<Rightarrow> int list \<Rightarrow> bool \<Rightarrow> int list \<Rightarrow> error + int list" where
  "getShapeOfGemmResult leftShape transLeft rightShape transRight biasShape =
     (if length leftShape \<noteq> 2 \<or> length rightShape \<noteq> 2
      then Inl (Error ''shape need to be of size 2'')
      else
        let M = (if transLeft then leftShape ! 1 else leftShape ! 0);
            K = (if transLeft then leftShape ! 0 else leftShape ! 1);
            N = (if transRight then rightShape ! 0 else rightShape ! 1);
            kDim = (if transRight then 1 else 0)
        in if rightShape ! kDim \<noteq> K then Inl (Error ''dimension mismatch'')
           else if M \<le> 0 \<or> N \<le> 0 \<or> K \<le> 0 then Inl (Error ''invalid shape specified'')
           else if \<not> isValidBroadcast biasShape [M, N]
           then Inl (Error ''gemm: invalid bias shape for broadcast'')
           else Inr [M, N])"

section \<open>ShapeUtil\<close>

text \<open>
  \<^verbatim>\<open>
  static getSizeFromDimensionRange(dims, start: number, end: number): number {
    let size = 1;
    for (let i = start; i < end; i++) {
      if (dims[i] <= 0) {
        throw new Error(`cannot get valid size from specified dimension range. ...`);
      }
      size *= dims[i];
    }
    return size;
  }
  \<close>
  A read outside \<open>dims\<close> is \<open>undefined\<close>: the comparison is false and \<open>size\<close> becomes
  \<open>NaN\<close>. The variables \<open>end\<close> and \<open>size\<close> are written \<open>end'\<close> and \<open>sz\<close>.
\<close>

function getSizeFromDimensionRange_loop :: "int list \<Rightarrow> int \<Rightarrow> int \<Rightarrow> int \<Rightarrow> error + int" where
  "getSizeFromDimensionRange_loop dims i end' sz =
     (if i < end' then
        (case js_get dims i of
           None \<Rightarrow> Inl NonFinite
         | Some d \<Rightarrow>
             if d \<le> 0
             then Inl (Error (''cannot get valid size from specified dimension range. ''
                    @ ''Most likely the range contains 0 or negative values in them.''))
             else (case num_mul sz d of
                     Inl e \<Rightarrow> Inl e
                   | Inr sz \<Rightarrow> getSizeFromDimensionRange_loop dims (i + 1) end' sz))
      else Inr sz)"
  by pat_completeness auto
termination
  by (relation "measure (\<lambda>(dims, i, end', sz). nat (end' - i))") auto

declare getSizeFromDimensionRange_loop.simps [simp del]

definition getSizeFromDimensionRange :: "int list \<Rightarrow> int \<Rightarrow> int \<Rightarrow> error + int" where
  "getSizeFromDimensionRange dims start end' = getSizeFromDimensionRange_loop dims start end' 1"

text \<open>\<open>ShapeUtil.size(dims)\<close> (named \<open>size_of\<close>: \<open>size\<close> is a constant of HOL).\<close>

definition size_of :: "int list \<Rightarrow> error + int" where
  "size_of dims = getSizeFromDimensionRange dims 0 (int (length dims))"

text \<open>
  \<^verbatim>\<open>
  static computeStrides(shape: ReadonlyArray<number>): number[] {
    const rank = shape.length;
    if (rank < 2) {
      return [1];
    }
    const strides = new Array(rank);
    strides[rank - 1] = 1;
    strides[rank - 2] = shape[rank - 1];
    for (let i = rank - 3; i >= 0; --i) {
      strides[i] = strides[i + 1] * shape[i + 1];
    }
    return strides;
  }
  \<close>
\<close>

function computeStrides_loop :: "int list \<Rightarrow> int \<Rightarrow> int option list \<Rightarrow> error + int option list" where
  "computeStrides_loop shape i strides =
     (if i \<ge> 0 then
        (case (cell strides (i + 1), js_get shape (i + 1)) of
           (Some s, Some d) \<Rightarrow>
             (case num_mul s d of
                Inl e \<Rightarrow> Inl e
              | Inr p \<Rightarrow> computeStrides_loop shape (i - 1) (js_set strides i p))
         | _ \<Rightarrow> Inl NonFinite)
      else Inr strides)"
  by pat_completeness auto
termination
  by (relation "measure (\<lambda>(shape, i, strides). nat (i + 1))") auto

declare computeStrides_loop.simps [simp del]

definition computeStrides :: "int list \<Rightarrow> error + int option list" where
  "computeStrides shape =
     (let rank = int (length shape)
      in if rank < 2 then Inr [Some 1]
         else
           let strides = replicate (nat rank) None;
               strides = js_set strides (rank - 1) 1;
               strides = js_set strides (rank - 2) (shape ! nat (rank - 1))
           in computeStrides_loop shape (rank - 3) strides)"

text \<open>
  \<^verbatim>\<open>
  static indicesToOffset(indices: number[], strides: number[]): number {
    const rank = strides.length;
    if (rank === 0) {
      return 0;
    }
    let index = indices[indices.length - 1];
    for (let i = 0; i < indices.length - 1; ++i) {
      index += strides[i] * indices[i];
    }
    return index;
  }
  \<close>
\<close>

function indicesToOffset_loop :: "int list \<Rightarrow> int list \<Rightarrow> int \<Rightarrow> int \<Rightarrow> error + int" where
  "indicesToOffset_loop indices strides i index =
     (if i < int (length indices) - 1 then
        (case (js_get strides i, js_get indices i) of
           (Some s, Some x) \<Rightarrow>
             (case bindE (num_mul s x) (num_add index) of
                Inl e \<Rightarrow> Inl e
              | Inr index \<Rightarrow> indicesToOffset_loop indices strides (i + 1) index)
         | _ \<Rightarrow> Inl NonFinite)
      else Inr index)"
  by pat_completeness auto
termination
  by (relation "measure (\<lambda>(indices, strides, i, index). nat (int (length indices) - 1 - i))") auto

declare indicesToOffset_loop.simps [simp del]

definition indicesToOffset :: "int list \<Rightarrow> int list \<Rightarrow> error + int" where
  "indicesToOffset indices strides =
     (let rank = length strides
      in if rank = 0 then Inr 0
         else case js_get indices (int (length indices) - 1) of
                None \<Rightarrow> Inl NonFinite
              | Some index \<Rightarrow> indicesToOffset_loop indices strides 0 index)"

text \<open>
  \<^verbatim>\<open>
  static offsetToIndices(offset: number, strides: number[]): number[] {
    const rank = strides.length;
    if (rank === 0) {
      return [];
    } else if (rank === 1) {
      return [offset];
    }
    const indices: number[] = new Array(strides.length);
    for (let i = 0; i < indices.length - 1; ++i) {
      indices[i] = Math.floor(offset / strides[i]);
      offset -= indices[i] * strides[i];
    }
    indices[indices.length - 1] = offset;
    return indices;
  }
  \<close>
  A stride \<open>0\<close> gives an infinity or \<open>NaN\<close>. The loop index is inside \<open>indices\<close>, which is
  as long as \<open>strides\<close>, so \<open>indices[i]\<close> reads back what was just written (\<open>q\<close>).
\<close>

function offsetToIndices_loop ::
  "int list \<Rightarrow> int \<Rightarrow> int \<Rightarrow> int option list \<Rightarrow> error + (int \<times> int option list)" where
  "offsetToIndices_loop strides i offset indices =
     (if i < int (length indices) - 1 then
        (case js_get strides i of
           None \<Rightarrow> Inl NonFinite
         | Some s \<Rightarrow>
             (case num_floor_div offset s of
                Inl e \<Rightarrow> Inl e
              | Inr q \<Rightarrow>
                  (case bindE (num_mul q s) (num_sub offset) of
                     Inl e \<Rightarrow> Inl e
                   | Inr offset \<Rightarrow>
                       offsetToIndices_loop strides (i + 1) offset (js_set indices i q))))
      else Inr (offset, indices))"
  by pat_completeness auto
termination
  by (relation "measure (\<lambda>(strides, i, offset, indices). nat (int (length indices) - 1 - i))")
     (auto simp: js_set_def)

declare offsetToIndices_loop.simps [simp del]

definition offsetToIndices :: "int \<Rightarrow> int list \<Rightarrow> error + int option list" where
  "offsetToIndices offset strides =
     (let rank = length strides
      in if rank = 0 then Inr []
         else if rank = 1 then Inr [Some offset]
         else case offsetToIndices_loop strides 0 offset (replicate (length strides) None) of
                Inl e \<Rightarrow> Inl e
              | Inr (offset', indices) \<Rightarrow>
                  Inr (js_set indices (int (length indices) - 1) offset'))"

text \<open>
  \<^verbatim>\<open>
  static getActualAxisFromNegativeValue(axis: number, tensorRank: number): number {
    if (axis < -tensorRank && axis > (tensorRank - 1)) {
      throw new Error('unsupported axis for this operation.');
    }
    return axis < 0 ? axis + tensorRank : axis;
  }
  \<close>
\<close>

definition getActualAxisFromNegativeValue :: "int \<Rightarrow> int \<Rightarrow> error + int" where
  "getActualAxisFromNegativeValue axis tensorRank =
     (if axis < - tensorRank \<and> axis > tensorRank - 1
      then Inl (Error ''unsupported axis for this operation.'')
      else Inr (if axis < 0 then axis + tensorRank else axis))"

text \<open>
  The loop of \<open>calculateReshapedDims\<close>, \<open>for (let i = 0; i < nDims; i++)\<close>, on the state
  \<open>(reshapedDims, unknownDimension, size)\<close>:
  \<^verbatim>\<open>
      if (shapeHints[i] < -1) {
        throw new Error('a dimension cannot be less than -1');
      }
      if (shapeHints[i] === -1) {
        if (unknownDimension !== -1) {
          throw new Error('at most one dimension can be -1');
        }
        unknownDimension = i;
      } else {
        if (shapeHints[i] === 0) {
          if (i >= originalDims.length) {
            throw new Error('the dimension with value zero exceeds the dimension size of the input tensor');
          }
          reshapedDims[i] = originalDims[i];
        } else {
          reshapedDims[i] = shapeHints[i];
        }
        size *= reshapedDims[i];
      }
  \<close>
  \<open>nDims\<close> is \<open>shapeHints.length\<close> and \<open>i\<close> counts up from \<open>0\<close>, so \<open>shapeHints[i]\<close> is inside the
  array; \<open>originalDims[i]\<close> is read after the test \<open>i >= originalDims.length\<close>.
\<close>

function calculateReshapedDims_loop ::
  "int list \<Rightarrow> int list \<Rightarrow> nat \<Rightarrow> int option list \<times> int \<times> int
     \<Rightarrow> error + (int option list \<times> int \<times> int)" where
  "calculateReshapedDims_loop originalDims shapeHints i (reshapedDims, unknownDimension, sz) =
     (if i < length shapeHints then
        (if shapeHints ! i < - 1 then Inl (Error ''a dimension cannot be less than -1'')
         else if shapeHints ! i = - 1 then
           (if unknownDimension \<noteq> - 1 then Inl (Error ''at most one dimension can be -1'')
            else calculateReshapedDims_loop originalDims shapeHints (i + 1)
                   (reshapedDims, int i, sz))
         else if shapeHints ! i = 0 then
           (if i \<ge> length originalDims
            then Inl (Error (''the dimension with value zero exceeds the dimension size ''
                   @ ''of the input tensor''))
            else (case num_mul sz (originalDims ! i) of
                    Inl e \<Rightarrow> Inl e
                  | Inr sz \<Rightarrow>
                      calculateReshapedDims_loop originalDims shapeHints (i + 1)
                        (js_set reshapedDims (int i) (originalDims ! i), unknownDimension, sz)))
         else (case num_mul sz (shapeHints ! i) of
                 Inl e \<Rightarrow> Inl e
               | Inr sz \<Rightarrow>
                   calculateReshapedDims_loop originalDims shapeHints (i + 1)
                     (js_set reshapedDims (int i) (shapeHints ! i), unknownDimension, sz)))
      else Inr (reshapedDims, unknownDimension, sz))"
  by pat_completeness auto
termination
  by (relation "measure (\<lambda>(originalDims, shapeHints, i, st). length shapeHints - i)") auto

declare calculateReshapedDims_loop.simps [simp del]

text \<open>
  \<^verbatim>\<open>
  static calculateReshapedDims(originalDims, shapeHints): number[] {
    const nDims = shapeHints.length;
    const reshapedDims = new Array<number>(nDims);
    let unknownDimension = -1;
    let size = 1;
    for (...) { ... }
    if (unknownDimension !== -1) {
      const originalTensorFlattenedSize = ShapeUtil.size(originalDims);
      if (originalTensorFlattenedSize % size !== 0) {
        throw new Error(`the input tensor cannot be reshaped to the requested shape. ...`);
      }
      reshapedDims[unknownDimension] = originalTensorFlattenedSize / size;
    }
    return reshapedDims;
  }
  \<close>
  The message of the last error holds the two shapes; the model keeps its fixed part.
  After the test of the remainder the quotient is an integer, and a double: its odd part
  divides that of \<open>originalTensorFlattenedSize\<close>, so the division does not round.
\<close>

definition calculateReshapedDims :: "int list \<Rightarrow> int list \<Rightarrow> error + int option list" where
  "calculateReshapedDims originalDims shapeHints =
     (let nDims = length shapeHints;
          reshapedDims = replicate nDims None
      in case calculateReshapedDims_loop originalDims shapeHints 0 (reshapedDims, - 1, 1) of
           Inl e \<Rightarrow> Inl e
         | Inr (reshapedDims, unknownDimension, sz) \<Rightarrow>
             if unknownDimension \<noteq> - 1 then
               (case size_of originalDims of
                  Inl e \<Rightarrow> Inl e
                | Inr originalTensorFlattenedSize \<Rightarrow>
                    if js_rem originalTensorFlattenedSize sz \<noteq> Some 0
                    then Inl (Error ''the input tensor cannot be reshaped to the requested shape.'')
                    else Inr (js_set reshapedDims unknownDimension
                                (originalTensorFlattenedSize div sz)))
             else Inr reshapedDims)"

section \<open>The block copy and MathUtil\<close>

text \<open>
  \<open>arrayCopyHelper\<close> and the four primitives of \<open>MathUtil\<close> take two buffers, \<open>target\<close> and
  \<open>source\<close>, which the caller owns and which may be one and the same array. A buffer is
  therefore a reference into a store, and each function takes the store and returns it
  as it is when the call ends, by a return or by a throw.

  The type of the buffers, \<open>NumberDataType\<close>, is declared outside these sources: a
  buffer is a \<open>number[]\<close> or a typed array, and a write into a typed array converts the
  number to the element type of the array (it rounds to a float, wraps to an integer).
  The numbers that the buffers hold are therefore of a type \<open>'a\<close> that is left open,
  \<open>NaN\<close> and the infinities included, and the platform is a parameter: the operators \<open>+\<close>
  and \<open>*\<close> on these numbers, \<open>Math.pow\<close>, the number \<open>2\<close>, and for each buffer the
  conversion that a write into it applies.
\<close>

type_synonym ref = nat

type_synonym 'a store = "ref \<Rightarrow> 'a list"

record 'a platform =
  num_plus :: "'a \<Rightarrow> 'a \<Rightarrow> 'a"
  num_times :: "'a \<Rightarrow> 'a \<Rightarrow> 'a"
  Math_pow :: "'a \<Rightarrow> 'a \<Rightarrow> 'a"
  num_two :: 'a
  stored_as :: "ref \<Rightarrow> 'a \<Rightarrow> 'a"

text \<open>
  The loop shared by the five functions, \<open>for (let offset = 0; offset < blockSize; offset++)\<close>,
  with the body \<open>target[targetIndex + offset] = f(target[targetIndex + offset], source[sourceIndex + offset])\<close>,
  the write converting the value as the target buffer does. It runs after the four bounds
  checks, under which every index it uses lies inside its buffer.
\<close>

function blockLoop ::
  "'a platform \<Rightarrow> ('a \<Rightarrow> 'a \<Rightarrow> 'a) \<Rightarrow> 'a store \<Rightarrow> ref \<Rightarrow> ref \<Rightarrow> int \<Rightarrow> int \<Rightarrow> int \<Rightarrow> int
     \<Rightarrow> 'a store" where
  "blockLoop P f st target source targetIndex sourceIndex blockSize offset =
     (if offset < blockSize then
        blockLoop P f
          (st(target := (st target)[nat (targetIndex + offset) :=
                 stored_as P target
                   (f (st target ! nat (targetIndex + offset))
                      (st source ! nat (sourceIndex + offset)))]))
          target source targetIndex sourceIndex blockSize (offset + 1)
      else st)"
  by pat_completeness auto
termination
  by (relation "measure (\<lambda>(P, f, st, target, source, targetIndex, sourceIndex, blockSize, offset).
        nat (blockSize - offset))") auto

declare blockLoop.simps [simp del]

text \<open>
  \<^verbatim>\<open>
  export function arrayCopyHelper(target, source, targetIndex: number, sourceIndex: number, blockSize: number) {
    if (sourceIndex < 0 || sourceIndex >= source.length) {
      throw new Error(`sourceIndex out of bounds`);
    }
    if (targetIndex < 0 || targetIndex >= target.length) {
      throw new Error(`targetIndex out of bounds`);
    }
    if (sourceIndex + blockSize > source.length) {
      throw new Error(`source indices to be copied are outside bounds`);
    }
    if (targetIndex + blockSize > target.length) {
      throw new Error(`target array is too small to hold result`);
    }
    for (let offset = 0; offset < blockSize; offset++) {
      target[targetIndex + offset] = source[sourceIndex + offset];
    }
  }
  \<close>
\<close>

definition arrayCopyHelper ::
  "'a platform \<Rightarrow> 'a store \<Rightarrow> ref \<Rightarrow> ref \<Rightarrow> int \<Rightarrow> int \<Rightarrow> int
     \<Rightarrow> (error + unit) \<times> 'a store" where
  "arrayCopyHelper P st target source targetIndex sourceIndex blockSize =
     (if sourceIndex < 0 \<or> sourceIndex \<ge> int (length (st source))
      then (Inl (Error ''sourceIndex out of bounds''), st)
      else if targetIndex < 0 \<or> targetIndex \<ge> int (length (st target))
      then (Inl (Error ''targetIndex out of bounds''), st)
      else if sourceIndex + blockSize > int (length (st source))
      then (Inl (Error ''source indices to be copied are outside bounds''), st)
      else if targetIndex + blockSize > int (length (st target))
      then (Inl (Error ''target array is too small to hold result''), st)
      else (Inr (), blockLoop P (\<lambda>t s. s) st target source targetIndex sourceIndex blockSize 0))"

text \<open>
  \<open>MathUtil.sqr\<close>: the same four checks, then
  \<open>target[targetIndex + offset] += Math.pow(source[sourceIndex + offset], 2)\<close>.
\<close>

definition sqr ::
  "'a platform \<Rightarrow> 'a store \<Rightarrow> ref \<Rightarrow> ref \<Rightarrow> int \<Rightarrow> int \<Rightarrow> int
     \<Rightarrow> (error + unit) \<times> 'a store" where
  "sqr P st target source targetIndex sourceIndex blockSize =
     (if sourceIndex < 0 \<or> sourceIndex \<ge> int (length (st source))
      then (Inl (Error ''sourceIndex out of bounds''), st)
      else if targetIndex < 0 \<or> targetIndex \<ge> int (length (st target))
      then (Inl (Error ''targetIndex out of bounds''), st)
      else if sourceIndex + blockSize > int (length (st source))
      then (Inl (Error ''source indices to be copied are outside bounds''), st)
      else if targetIndex + blockSize > int (length (st target))
      then (Inl (Error ''target array is too small to hold result''), st)
      else (Inr (), blockLoop P (\<lambda>t s. num_plus P t (Math_pow P s (num_two P)))
                 st target source targetIndex sourceIndex blockSize 0))"

text \<open>
  \<open>MathUtil.axpy\<close>: the same four checks, then
  \<open>target[targetIndex + offset] += (alpha * source[sourceIndex + offset])\<close>.
\<close>

definition axpy ::
  "'a platform \<Rightarrow> 'a store \<Rightarrow> ref \<Rightarrow> ref \<Rightarrow> int \<Rightarrow> int \<Rightarrow> int \<Rightarrow> 'a
     \<Rightarrow> (error + unit) \<times> 'a store" where
  "axpy P st target source targetIndex sourceIndex blockSize alpha =
     (if sourceIndex < 0 \<or> sourceIndex \<ge> int (length (st source))
      then (Inl (Error ''sourceIndex out of bounds''), st)
      else if targetIndex < 0 \<or> targetIndex \<ge> int (length (st target))
      then (Inl (Error ''targetIndex out of bounds''), st)
      else if sourceIndex + blockSize > int (length (st source))
      then (Inl (Error ''source indices to be copied are outside bounds''), st)
      else if targetIndex + blockSize > int (length (st target))
      then (Inl (Error ''target array is too small to hold result''), st)
      else (Inr (), blockLoop P (\<lambda>t s. num_plus P t (num_times P alpha s))
                 st target source targetIndex sourceIndex blockSize 0))"

text \<open>
  \<open>MathUtil.powx\<close>: the same four checks, then
  \<open>target[targetIndex + offset] = Math.pow(source[sourceIndex + offset], b)\<close>.
\<close>

definition powx ::
  "'a platform \<Rightarrow> 'a store \<Rightarrow> ref \<Rightarrow> ref \<Rightarrow> int \<Rightarrow> int \<Rightarrow> int \<Rightarrow> 'a
     \<Rightarrow> (error + unit) \<times> 'a store" where
  "powx P st target source targetIndex sourceIndex blockSize b =
     (if sourceIndex < 0 \<or> sourceIndex \<ge> int (length (st source))
      then (Inl (Error ''sourceIndex out of bounds''), st)
      else if targetIndex < 0 \<or> targetIndex \<ge> int (length (st target))
      then (Inl (Error ''targetIndex out of bounds''), st)
      else if sourceIndex + blockSize > int (length (st source))
      then (Inl (Error ''source indices to be copied are outside bounds''), st)
      else if targetIndex + blockSize > int (length (st target))
      then (Inl (Error ''target array is too small to hold result''), st)
      else (Inr (), blockLoop P (\<lambda>t s. Math_pow P s b)
                 st target source targetIndex sourceIndex blockSize 0))"

text \<open>
  \<open>MathUtil.mul\<close>: the same four checks, then
  \<open>target[targetIndex + offset] = (source[sourceIndex + offset] * target[targetIndex + offset])\<close>.
\<close>

definition mul ::
  "'a platform \<Rightarrow> 'a store \<Rightarrow> ref \<Rightarrow> ref \<Rightarrow> int \<Rightarrow> int \<Rightarrow> int
     \<Rightarrow> (error + unit) \<times> 'a store" where
  "mul P st target source targetIndex sourceIndex blockSize =
     (if sourceIndex < 0 \<or> sourceIndex \<ge> int (length (st source))
      then (Inl (Error ''sourceIndex out of bounds''), st)
      else if targetIndex < 0 \<or> targetIndex \<ge> int (length (st target))
      then (Inl (Error ''targetIndex out of bounds''), st)
      else if sourceIndex + blockSize > int (length (st source))
      then (Inl (Error ''source indices to be copied are outside bounds''), st)
      else if targetIndex + blockSize > int (length (st target))
      then (Inl (Error ''target array is too small to hold result''), st)
      else (Inr (), blockLoop P (\<lambda>t s. num_times P s t)
                 st target source targetIndex sourceIndex blockSize 0))"

section \<open>SplitUtil\<close>

text \<open>
  \<^verbatim>\<open>
  static determineSplit(numElementsAlongAxis: number, numOutputs: number, split: number[]) {
    if (numElementsAlongAxis % numOutputs !== 0) {
      throw new Error(`cannot split tensor to equal sized parts`);
    }
    for (let i = 0; i < numOutputs; ++i) {
      split.push(numElementsAlongAxis / numOutputs);
    }
  }
  \<close>
  The caller's array \<open>split\<close> is changed in place: the model returns its new contents.
  After the test of the remainder the quotient is an integer and the division does not
  round.
  \<open>numElementsAlongAxis\<close> is \<open>dims[axis]\<close> of the caller, \<open>undefined\<close> (\<open>None\<close>) when \<open>axis\<close> is
  outside \<open>dims\<close>; its remainder is \<open>NaN\<close> then, which differs from \<open>0\<close>.
\<close>

function determineSplit_loop :: "int \<Rightarrow> int \<Rightarrow> int \<Rightarrow> int list \<Rightarrow> int list" where
  "determineSplit_loop numElementsAlongAxis numOutputs i split =
     (if i < numOutputs
      then determineSplit_loop numElementsAlongAxis numOutputs (i + 1)
             (split @ [numElementsAlongAxis div numOutputs])
      else split)"
  by pat_completeness auto
termination
  by (relation "measure (\<lambda>(numElementsAlongAxis, numOutputs, i, split). nat (numOutputs - i))") auto

declare determineSplit_loop.simps [simp del]

definition determineSplit :: "int option \<Rightarrow> int \<Rightarrow> int list \<Rightarrow> error + int list" where
  "determineSplit numElementsAlongAxis numOutputs split =
     (case numElementsAlongAxis of
        None \<Rightarrow> Inl (Error ''cannot split tensor to equal sized parts'')
      | Some n \<Rightarrow>
          if js_rem n numOutputs \<noteq> Some 0
          then Inl (Error ''cannot split tensor to equal sized parts'')
          else Inr (determineSplit_loop n numOutputs 0 split))"

text \<open>
  The loop of \<open>splitShape\<close>, \<open>for (let i = 0; i < split.length; ++i)\<close>:
  \<^verbatim>\<open>
      if (i !== 0) {
        offsets.push(offsets[i - 1] + split[i - 1]);
      }
      const shape = dims.slice();
      shape[axis] = split[i];
      shapes.push(shape);
  \<close>
  \<open>offsets\<close> starts as \<open>[0]\<close> and grows by one in each round but the first, so
  \<open>offsets[i - 1]\<close> is its last element.
\<close>

function splitShape_loop ::
  "int list \<Rightarrow> int \<Rightarrow> int list \<Rightarrow> nat \<Rightarrow> int option list list \<times> int list
     \<Rightarrow> int option list list \<times> int list" where
  "splitShape_loop dims axis split i (shapes, offsets) =
     (if i < length split then
        (let offsets = (if i \<noteq> 0 then offsets @ [offsets ! (i - 1) + split ! (i - 1)] else offsets);
             shape = map Some dims;
             shape = js_set shape axis (split ! i)
         in splitShape_loop dims axis split (i + 1) (shapes @ [shape], offsets))
      else (shapes, offsets))"
  by pat_completeness auto
termination
  by (relation "measure (\<lambda>(dims, axis, split, i, acc). length split - i)") auto

declare splitShape_loop.simps [simp del]

text \<open>
  \<^verbatim>\<open>
  static splitShape(dims, axis: number, split: number[], numOutputs?: number): [number[][], number[]] {
    if (split.length === 0) {
      if (!numOutputs) {
        throw new Error(`need to know number of outputs when the 'split' attribute is not specified`);
      }
      SplitUtil.determineSplit(dims[axis], numOutputs, split);
    }
    const shapes: number[][] = [];
    const offsets = [0];
    for (...) { ... }
    return [shapes, offsets];
  }
  \<close>
  The optional \<open>numOutputs\<close> is an \<open>int option\<close>; \<open>!numOutputs\<close> holds when it is absent and
  when it is \<open>0\<close>. The model returns the result together with the contents of the caller's
  \<open>split\<close> array when the call ends, also when it ends by a throw.
\<close>

definition splitShape ::
  "int list \<Rightarrow> int \<Rightarrow> int list \<Rightarrow> int option
     \<Rightarrow> (error + (int option list list \<times> int list)) \<times> int list" where
  "splitShape dims axis split numOutputs =
     (let r = (if length split = 0 then
                 (case numOutputs of
                    None \<Rightarrow> Inl (Error (''need to know number of outputs when the 'split' ''
                              @ ''attribute is not specified''))
                  | Some n \<Rightarrow>
                      if n = 0
                      then Inl (Error (''need to know number of outputs when the 'split' ''
                             @ ''attribute is not specified''))
                      else determineSplit (js_get dims axis) n split)
               else Inr split)
      in case r of
           Inl e \<Rightarrow> (Inl e, split)
         | Inr split \<Rightarrow> (Inr (splitShape_loop dims axis split 0 ([], [0])), split))"

section \<open>PoolConvUtil\<close>

text \<open>
  \<^verbatim>\<open>
  private static adjustPadAndReturnShape(
      inSize: number, stride: number, kernel: number, pads: number[], padHeadIndex: number,
      padTailIndex: number, autoPad?: string): number {
    if (autoPad && autoPad !== 'NOTSET') {
      switch (autoPad) {
        case 'VALID':
          pads[padHeadIndex] = 0;
          pads[padTailIndex] = 0;
          return Math.floor(((inSize - kernel) / stride) + 1);
        case 'SAME_LOWER':
          const legacyTargetSize1 = (inSize + stride - 1) / stride;
          const padNeeded1 = (legacyTargetSize1 - 1) * stride + kernel - inSize;
          pads[padHeadIndex] = Math.floor((padNeeded1 + 1) / 2);
          pads[padTailIndex] = padNeeded1 - pads[padHeadIndex];
          return Math.floor(((inSize + padNeeded1 - kernel) / stride) + 1);
        case 'SAME_UPPER':
          const legacyTargetSize = (inSize + stride - 1) / stride;
          const padNeeded = (legacyTargetSize - 1) * stride + kernel - inSize;
          pads[padHeadIndex] = Math.floor(padNeeded / 2);
          pads[padTailIndex] = padNeeded - pads[padHeadIndex];
          return Math.floor(((inSize + padNeeded - kernel) / stride) + 1);
        default:
          throw new Error(`Unsupported AutoPad type`);
      }
    } else {
      return Math.floor(((inSize + pads[padHeadIndex] + pads[padTailIndex] - kernel) / stride) + 1);
    }
  }
  \<close>
  The operator \<open>/\<close> is the division of numbers, not of integers, so the numbers here are
  rationals, and every operation rounds. The caller's array \<open>pads\<close> is changed in place:
  the model returns its new contents with the result. The optional \<open>autoPad\<close> is a
  \<open>string option\<close>; the test \<open>autoPad\<close> fails when it is absent and when it is the empty
  string. In the two \<open>SAME\<close> cases \<open>pads[padHeadIndex]\<close> is read right after it is written
  and is the value written (\<open>head\<close>). The operators associate to the left, and each
  intermediate value has a name (\<open>t1\<close>, \<open>r1\<close>, ...). A stride \<open>0\<close> makes a quotient infinite
  or \<open>NaN\<close>. The parameter \<open>kernel\<close> is written \<open>kernel'\<close> (\<open>kernel\<close> is a constant of HOL).
\<close>

definition adjustPadAndReturnShape ::
  "rat \<Rightarrow> rat \<Rightarrow> rat \<Rightarrow> rat option list \<Rightarrow> int \<Rightarrow> int \<Rightarrow> string option
     \<Rightarrow> error + (rat option list \<times> rat)" where
  "adjustPadAndReturnShape inSize stride kernel' pads padHeadIndex padTailIndex autoPad =
     (if autoPad \<noteq> None \<and> autoPad \<noteq> Some [] \<and> autoPad \<noteq> Some ''NOTSET'' then
        (if autoPad = Some ''VALID'' then
           (let pads = js_set pads padHeadIndex 0;
                pads = js_set pads padTailIndex 0
            in bindE (js_sub inSize kernel') (\<lambda>r1.
               bindE (js_div r1 stride) (\<lambda>r2.
               bindE (js_add r2 1) (\<lambda>r3. Inr (pads, of_int \<lfloor>r3\<rfloor>)))))
         else if autoPad = Some ''SAME_LOWER'' then
           bindE (js_add inSize stride) (\<lambda>t1.
           bindE (js_sub t1 1) (\<lambda>t2.
           bindE (js_div t2 stride) (\<lambda>legacyTargetSize1.
           bindE (js_sub legacyTargetSize1 1) (\<lambda>t3.
           bindE (js_mul t3 stride) (\<lambda>t4.
           bindE (js_add t4 kernel') (\<lambda>t5.
           bindE (js_sub t5 inSize) (\<lambda>padNeeded1.
           bindE (js_add padNeeded1 1) (\<lambda>h1.
           bindE (js_div h1 2) (\<lambda>h2.
           let head = of_int \<lfloor>h2\<rfloor>;
               pads = js_set pads padHeadIndex head
           in
           bindE (js_sub padNeeded1 head) (\<lambda>tail.
           let pads = js_set pads padTailIndex tail
           in
           bindE (js_add inSize padNeeded1) (\<lambda>r0.
           bindE (js_sub r0 kernel') (\<lambda>r1.
           bindE (js_div r1 stride) (\<lambda>r2.
           bindE (js_add r2 1) (\<lambda>r3.
           Inr (pads, of_int \<lfloor>r3\<rfloor>)))))))))))))))
         else if autoPad = Some ''SAME_UPPER'' then
           bindE (js_add inSize stride) (\<lambda>t1.
           bindE (js_sub t1 1) (\<lambda>t2.
           bindE (js_div t2 stride) (\<lambda>legacyTargetSize.
           bindE (js_sub legacyTargetSize 1) (\<lambda>t3.
           bindE (js_mul t3 stride) (\<lambda>t4.
           bindE (js_add t4 kernel') (\<lambda>t5.
           bindE (js_sub t5 inSize) (\<lambda>padNeeded.
           bindE (js_div padNeeded 2) (\<lambda>h2.
           let head = of_int \<lfloor>h2\<rfloor>;
               pads = js_set pads padHeadIndex head
           in
           bindE (js_sub padNeeded head) (\<lambda>tail.
           let pads = js_set pads padTailIndex tail
           in
           bindE (js_add inSize padNeeded) (\<lambda>r0.
           bindE (js_sub r0 kernel') (\<lambda>r1.
           bindE (js_div r1 stride) (\<lambda>r2.
           bindE (js_add r2 1) (\<lambda>r3.
           Inr (pads, of_int \<lfloor>r3\<rfloor>))))))))))))))
         else Inl (Error ''Unsupported AutoPad type''))
      else
        (case (cell pads padHeadIndex, cell pads padTailIndex) of
           (Some h, Some t) \<Rightarrow>
             bindE (js_add inSize h) (\<lambda>r.
             bindE (js_add r t) (\<lambda>r0.
             bindE (js_sub r0 kernel') (\<lambda>r1.
             bindE (js_div r1 stride) (\<lambda>r2.
             bindE (js_add r2 1) (\<lambda>r3. Inr (pads, of_int \<lfloor>r3\<rfloor>))))))
         | _ \<Rightarrow> Inl NonFinite))"

text \<open>
  \<^verbatim>\<open>
  private static computeShapeHelper(
      isGlobalOperator: boolean, inputDims, outputDims: number[], strides: number[],
      kernelShape: number[], pads: number[], autoPad?: string) {
    if (isGlobalOperator) {
      for (let dim = 0; dim < inputDims.length - 2; dim++) {
        outputDims.push(1);
      }
    } else {
      for (let dim = 0; dim < inputDims.length - 2; dim++) {
        outputDims.push(PoolConvUtil.adjustPadAndReturnShape(
            inputDims[dim + 2], strides[dim], kernelShape[dim], pads, dim, dim + inputDims.length - 2, autoPad));
      }
    }
  }
  \<close>
  The two arrays that the helper changes, \<open>outputDims\<close> and \<open>pads\<close>, are returned. In the
  second loop \<open>dim + 2\<close> is inside \<open>inputDims\<close>; \<open>strides[dim]\<close> and \<open>kernelShape[dim]\<close> are
  \<open>undefined\<close> past the end of their arrays. The loop variable \<open>dim\<close> is written \<open>d\<close>
  (\<open>dim\<close> is a constant of HOL).
\<close>

function computeShapeHelper_global :: "rat list \<Rightarrow> int \<Rightarrow> rat list \<Rightarrow> rat list" where
  "computeShapeHelper_global inputDims d outputDims =
     (if d < int (length inputDims) - 2
      then computeShapeHelper_global inputDims (d + 1) (outputDims @ [1])
      else outputDims)"
  by pat_completeness auto
termination
  by (relation "measure (\<lambda>(inputDims, d, outputDims). nat (int (length inputDims) - 2 - d))")
     auto

declare computeShapeHelper_global.simps [simp del]

function computeShapeHelper_loop ::
  "rat list \<Rightarrow> rat list \<Rightarrow> rat list \<Rightarrow> string option \<Rightarrow> int \<Rightarrow> rat list \<times> rat option list
     \<Rightarrow> error + (rat list \<times> rat option list)" where
  "computeShapeHelper_loop inputDims strides kernelShape autoPad d (outputDims, pads) =
     (if d < int (length inputDims) - 2 then
        (case (js_get inputDims (d + 2), js_get strides d, js_get kernelShape d) of
           (Some inSize, Some stride, Some kernel') \<Rightarrow>
             (case adjustPadAndReturnShape inSize stride kernel' pads d
                     (d + int (length inputDims) - 2) autoPad of
                Inl e \<Rightarrow> Inl e
              | Inr (pads, out) \<Rightarrow>
                  computeShapeHelper_loop inputDims strides kernelShape autoPad (d + 1)
                    (outputDims @ [out], pads))
         | _ \<Rightarrow> Inl NonFinite)
      else Inr (outputDims, pads))"
  by pat_completeness auto
termination
  by (relation "measure (\<lambda>(inputDims, strides, kernelShape, autoPad, d, acc).
        nat (int (length inputDims) - 2 - d))") auto

declare computeShapeHelper_loop.simps [simp del]

definition computeShapeHelper ::
  "bool \<Rightarrow> rat list \<Rightarrow> rat list \<Rightarrow> rat list \<Rightarrow> rat list \<Rightarrow> rat option list \<Rightarrow> string option
     \<Rightarrow> error + (rat list \<times> rat option list)" where
  "computeShapeHelper isGlobalOperator inputDims outputDims strides kernelShape pads autoPad =
     (if isGlobalOperator then Inr (computeShapeHelper_global inputDims 0 outputDims, pads)
      else computeShapeHelper_loop inputDims strides kernelShape autoPad 0 (outputDims, pads))"

text \<open>
  \<^verbatim>\<open>
  static computePoolOutputShape(
      isGlobalOperator: boolean, inputDims, strides: number[], kernelShape: number[],
      pads: number[], autoPad?: string): number[] {
    if (inputDims.length <= 0) {
      throw new Error(`input shape must be of size greater than 0`);
    }
    const outputDims = [inputDims[0], inputDims[1]];
    PoolConvUtil.computeShapeHelper(isGlobalOperator, inputDims, outputDims, strides, kernelShape, pads, autoPad);
    return outputDims;
  }
  \<close>
  The model returns the output shape with the contents of the caller's \<open>pads\<close>.
\<close>

definition computePoolOutputShape ::
  "bool \<Rightarrow> rat list \<Rightarrow> rat list \<Rightarrow> rat list \<Rightarrow> rat option list \<Rightarrow> string option
     \<Rightarrow> error + (rat list \<times> rat option list)" where
  "computePoolOutputShape isGlobalOperator inputDims strides kernelShape pads autoPad =
     (if length inputDims \<le> 0 then Inl (Error ''input shape must be of size greater than 0'')
      else case (js_get inputDims 0, js_get inputDims 1) of
             (Some batch, Some channels) \<Rightarrow>
               computeShapeHelper isGlobalOperator inputDims [batch, channels] strides kernelShape
                 pads autoPad
           | _ \<Rightarrow> Inl NonFinite)"

section \<open>Notions of the specification\<close>

text \<open>
  The bounds errors of the block copy and of \<open>MathUtil\<close>: the four errors that their
  checks throw.
\<close>

definition bounds_error :: "error + unit \<Rightarrow> bool" where
  "bounds_error r =
     (r = Inl (Error ''sourceIndex out of bounds'')
      \<or> r = Inl (Error ''targetIndex out of bounds'')
      \<or> r = Inl (Error ''source indices to be copied are outside bounds'')
      \<or> r = Inl (Error ''target array is too small to hold result''))"

text \<open>
  Unidirectional broadcasting in the words of the specification: the rank of \<open>shape\<close> is
  at most the rank of \<open>finalShape\<close>, and every dimension of \<open>shape\<close>, the two shapes
  aligned to the right, is \<open>1\<close> or equal to the dimension of \<open>finalShape\<close> that it meets.
\<close>

definition broadcasts_into :: "int list \<Rightarrow> int list \<Rightarrow> bool" where
  "broadcasts_into shape finalShape =
     (length shape \<le> length finalShape
      \<and> list_all2 (\<lambda>s f. s = 1 \<or> s = f) shape
            (drop (length finalShape - length shape) finalShape))"

text \<open>
  The dimension of \<open>dims\<close> at position \<open>i\<close> counted from the right, from \<open>1\<close>; \<open>1\<close> to the left
  of the shape (the \<open>aLen\<close> and \<open>bLen\<close> of \<open>calcShape\<close>).
\<close>

definition aligned_dim :: "int list \<Rightarrow> int \<Rightarrow> int" where
  "aligned_dim dims i =
     (if int (length dims) - i < 0 then 1 else dims ! nat (int (length dims) - i))"

text \<open>
  The row-major stride of dimension \<open>k\<close> of a shape: the product of the dimensions to its
  right.
\<close>

definition row_major :: "int list \<Rightarrow> nat \<Rightarrow> int" where
  "row_major shape k = prod_list (drop (Suc k) shape)"

text \<open>
  The part of the offset of an index vector that the coordinates from position \<open>i\<close> on
  contribute under row-major strides.
\<close>

definition tail_offset :: "int list \<Rightarrow> int list \<Rightarrow> nat \<Rightarrow> int" where
  "tail_offset shape idx i = (\<Sum>k = i..<length shape. row_major shape k * idx ! k)"

text \<open>A platform for the examples: real numbers with their arithmetic, stored as they are.\<close>

definition real_platform :: "real platform" where
  "real_platform =
     \<lparr>num_plus = (+), num_times = (*), Math_pow = (powr), num_two = 2,
      stored_as = (\<lambda>r v. v)\<rparr>"

section \<open>Properties\<close>

subsection \<open>Doubles\<close>

text \<open>
  The exponent that \<open>ilog2\<close> computes brackets its argument; integers up to \<open>2^53\<close> are
  doubles, so operations on them with a result in that range do not round; and
  \<open>Math.floor(a / b)\<close> is \<open>a div b\<close> for \<open>0 \<le> a < 2^53\<close> and \<open>0 < b \<le> 2^53\<close>, the rounded
  quotient staying below the next integer.
\<close>

lemma bits_bounds:
  "0 < n \<Longrightarrow> 1 \<le> bits n \<and> 2 ^ nat (bits n - 1) \<le> n \<and> n < 2 ^ nat (bits n)"
proof (induction n rule: bits.induct)
  case (1 n)
  show ?case
  proof (cases "n div 2 \<le> 0")
    case True
    with "1.prems" have "n = 1" by linarith
    then have "bits n = 1" by (simp add: bits.simps[of 1] bits.simps[of 0])
    then show ?thesis using \<open>n = 1\<close> by simp
  next
    case False
    then have h: "0 < n div 2" by simp
    have n: "\<not> n \<le> 0" using "1.prems" by simp
    from "1.IH"[OF n h] have IH: "1 \<le> bits (n div 2)"
      "2 ^ nat (bits (n div 2) - 1) \<le> n div 2" "n div 2 < 2 ^ nat (bits (n div 2))" by simp_all
    have b: "bits n = 1 + bits (n div 2)" using n by (subst bits.simps) simp
    have e1: "nat (bits n - 1) = Suc (nat (bits (n div 2) - 1))" using b IH(1) by simp
    have e2: "nat (bits n) = Suc (nat (bits (n div 2)))" using b IH(1) by simp
    have "(2::int) * 2 ^ nat (bits (n div 2) - 1) \<le> n" using IH(2) by linarith
    then have lo: "(2::int) ^ nat (bits n - 1) \<le> n" unfolding e1 by simp
    have "n < (2::int) * 2 ^ nat (bits (n div 2))" using IH(3) by linarith
    then have hi: "n < (2::int) ^ nat (bits n)" unfolding e2 by simp
    have "1 \<le> bits n" using b IH(1) by simp
    with lo hi show ?thesis by blast
  qed
qed

lemma ilog2_bounds:
  assumes "x \<noteq> 0"
  shows "power_int 2 (ilog2 x) \<le> \<bar>x\<bar> \<and> \<bar>x\<bar> < power_int 2 (ilog2 x + 1)"
proof -
  obtain p q where pq: "quotient_of \<bar>x\<bar> = (p, q)" by (cases "quotient_of \<bar>x\<bar>")
  have q: "0 < q" using pq by (rule quotient_of_denom_pos)
  have x: "\<bar>x\<bar> = of_int p / of_int q" using pq by (rule quotient_of_div)
  have p: "0 < p"
  proof -
    have "0 < \<bar>x\<bar>" using assms by simp
    then have "0 < (of_int p :: rat) / of_int q" by (simp add: x)
    then show ?thesis using q by (simp add: zero_less_divide_iff)
  qed
  define lp lq where "lp = bits p" and "lq = bits q"
  have bp: "1 \<le> lp" "2 ^ nat (lp - 1) \<le> p" "p < 2 ^ nat lp"
    using bits_bounds[OF p] by (simp_all add: lp_def)
  have bq: "1 \<le> lq" "2 ^ nat (lq - 1) \<le> q" "q < 2 ^ nat lq"
    using bits_bounds[OF q] by (simp_all add: lq_def)
  have rp: "power_int 2 (lp - 1) \<le> (of_int p :: rat)" "(of_int p :: rat) < power_int 2 lp"
  proof -
    have "(of_int (2 ^ nat (lp - 1)) :: rat) \<le> of_int p" using bp(2) by (simp only: of_int_le_iff)
    then show "power_int 2 (lp - 1) \<le> (of_int p :: rat)" using bp(1) by (simp add: power_int_def)
    have "(of_int p :: rat) < of_int (2 ^ nat lp)" using bp(3) by (simp only: of_int_less_iff)
    then show "(of_int p :: rat) < power_int 2 lp" using bp(1) by (simp add: power_int_def)
  qed
  have rq: "power_int 2 (lq - 1) \<le> (of_int q :: rat)" "(of_int q :: rat) < power_int 2 lq"
  proof -
    have "(of_int (2 ^ nat (lq - 1)) :: rat) \<le> of_int q" using bq(2) by (simp only: of_int_le_iff)
    then show "power_int 2 (lq - 1) \<le> (of_int q :: rat)" using bq(1) by (simp add: power_int_def)
    have "(of_int q :: rat) < of_int (2 ^ nat lq)" using bq(3) by (simp only: of_int_less_iff)
    then show "(of_int q :: rat) < power_int 2 lq" using bq(1) by (simp add: power_int_def)
  qed
  define k where "k = lp - lq"
  have qpos: "(0::rat) < of_int q" using q by simp
  have lo: "power_int 2 (k - 1) \<le> \<bar>x\<bar>"
  proof -
    have "power_int 2 (k - 1) * (of_int q :: rat) \<le> power_int 2 (k - 1) * power_int 2 lq"
      using rq(2) by (intro mult_left_mono) simp_all
    also have "\<dots> = power_int 2 (lp - 1)"
      by (simp add: k_def flip: power_int_add)
    also have "\<dots> \<le> of_int p" by (rule rp(1))
    finally show ?thesis using qpos by (simp add: x pos_le_divide_eq)
  qed
  have hi: "\<bar>x\<bar> < power_int 2 (k + 1)"
  proof -
    have "(of_int p :: rat) < power_int 2 lp" by (rule rp(2))
    also have "\<dots> = power_int 2 (k + 1) * power_int 2 (lq - 1)"
      by (simp add: k_def flip: power_int_add)
    also have "\<dots> \<le> power_int 2 (k + 1) * of_int q"
      using rq(1) by (intro mult_left_mono) simp_all
    finally show ?thesis using qpos by (simp add: x pos_divide_less_eq)
  qed
  have il: "ilog2 x = (if power_int 2 k \<le> \<bar>x\<bar> then k else k - 1)"
    by (simp add: ilog2_def pq k_def lp_def lq_def)
  show ?thesis
  proof (cases "power_int 2 k \<le> \<bar>x\<bar>")
    case True
    then show ?thesis using hi by (simp add: il)
  next
    case False
    then show ?thesis using lo by (simp add: il)
  qed
qed

lemma ilog2_less:
  assumes "x \<noteq> 0" and "\<bar>x\<bar> < power_int 2 m"
  shows "ilog2 x < m"
proof (rule ccontr)
  assume "\<not> ilog2 x < m"
  then have "m \<le> ilog2 x" by simp
  then have "power_int (2::rat) m \<le> power_int 2 (ilog2 x)"
    by (intro power_int_increasing) simp_all
  with ilog2_bounds[OF assms(1)] assms(2) show False by linarith
qed

lemma ilog2_ge:
  assumes "x \<noteq> 0" and "power_int 2 m \<le> \<bar>x\<bar>"
  shows "m \<le> ilog2 x"
proof (rule ccontr)
  assume "\<not> m \<le> ilog2 x"
  then have "ilog2 x + 1 \<le> m" by simp
  then have "power_int (2::rat) (ilog2 x + 1) \<le> power_int 2 m"
    by (intro power_int_increasing) simp_all
  with ilog2_bounds[OF assms(1)] assms(2) show False by linarith
qed

lemma round_half_even_of_int [simp]: "round_half_even (of_int m) = m"
  by (simp add: round_half_even_def)

lemma floor_le_round_half_even: "\<lfloor>y\<rfloor> \<le> round_half_even y"
  by (simp add: round_half_even_def Let_def)

lemma round_half_even_le: "of_int (round_half_even y) \<le> y + 1 / 2"
proof -
  have 1: "of_int \<lfloor>y\<rfloor> \<le> y" by simp
  have 2: "(of_int (\<lfloor>y\<rfloor> + 1) :: rat) = of_int \<lfloor>y\<rfloor> + 1" by simp
  show ?thesis
    unfolding round_half_even_def Let_def using 1
    by (simp only: 2 split: if_split) linarith
qed

lemma rd_scaled_int:
  assumes x: "x \<noteq> 0" and e: "ilog2 x \<le> 52" and lo: "- 1022 \<le> ilog2 x"
    and m: "x * power_int 2 (52 - ilog2 x) = of_int m"
  shows "rd x = x"
proof -
  define M :: rat where "M = power_int 2 (52 - ilog2 x)"
  have M: "0 < M" by (simp add: M_def)
  have mx: "max (ilog2 x - 52) (- 1074) = - (52 - ilog2 x)" using lo by simp
  have u: "power_int 2 (max (ilog2 x - 52) (- 1074)) = inverse M"
    unfolding mx M_def by (rule power_int_minus)
  have "x / inverse M = of_int m" using m by (simp add: M_def divide_inverse)
  then have "rd x = of_int m * inverse M"
    using x by (simp add: rd_def u Let_def)
  also have "\<dots> = x" using m M by (simp add: M_def field_simps)
  finally show ?thesis .
qed

lemma rd_of_int:
  assumes "\<bar>n\<bar> \<le> 2 ^ 53"
  shows "rd (of_int n) = of_int n"
proof (cases "n = 0")
  case True
  then show ?thesis by (simp add: rd_def)
next
  case False
  define x :: rat where "x = of_int n"
  have x: "x \<noteq> 0" using False by (simp add: x_def)
  have ax: "\<bar>x\<bar> = of_int \<bar>n\<bar>" by (simp add: x_def)
  have "1 \<le> \<bar>n\<bar>" using False by simp
  then have "(1::rat) \<le> \<bar>x\<bar>" unfolding ax by (simp only: of_int_1_le_iff)
  then have e0: "0 \<le> ilog2 x" using ilog2_ge[OF x, of 0] by simp
  show ?thesis
  proof (cases "\<bar>n\<bar> = 2 ^ 53")
    case True
    then have a: "\<bar>x\<bar> = 2 ^ 53" unfolding ax by simp
    have "53 \<le> ilog2 x" using ilog2_ge[OF x, of 53] a by simp
    moreover have "ilog2 x < 54" using ilog2_less[OF x, of 54] a by simp
    ultimately have e: "ilog2 x = 53" by simp
    have "n = 2 ^ 53 \<or> n = - (2 ^ 53)" using True by linarith
    then have even: "n = 2 * (n div 2)" by auto
    have h: "x / 2 = of_int (n div 2)"
    proof -
      have "x = of_int (2 * (n div 2))" using even by (simp add: x_def)
      then show ?thesis by simp
    qed
    have u: "power_int 2 (max (ilog2 x - 52) (- 1074)) = (2::rat)" by (simp add: e)
    have "rd x = of_int (round_half_even (x / 2)) * 2"
      by (simp only: rd_def Let_def u x if_False)
    also have "\<dots> = of_int (n div 2) * 2"
      by (simp only: h round_half_even_of_int)
    also have "\<dots> = of_int (2 * (n div 2))" by simp
    also have "\<dots> = x" using even by (simp add: x_def)
    finally show ?thesis by (simp add: x_def)
  next
    case False
    with assms have "\<bar>n\<bar> < 2 ^ 53" by simp
    then have "(of_int \<bar>n\<bar> :: rat) < of_int (2 ^ 53)" by (simp only: of_int_less_iff)
    then have "\<bar>x\<bar> < power_int 2 53" by (simp add: ax)
    then have e: "ilog2 x \<le> 52" using ilog2_less[OF x, of 53] by simp
    have "power_int (2::rat) (52 - ilog2 x) = of_int (2 ^ nat (52 - ilog2 x))"
      using e by (simp add: power_int_def)
    then have m: "x * power_int 2 (52 - ilog2 x) = of_int (n * 2 ^ nat (52 - ilog2 x))"
      by (simp add: x_def)
    have "- 1022 \<le> ilog2 x" using e0 by simp
    with x e have "rd x = x" using m by (rule rd_scaled_int)
    then show ?thesis by (simp add: x_def)
  qed
qed

lemma dbl_of_int:
  assumes "\<bar>n\<bar> \<le> 2 ^ 53"
  shows "dbl (of_int n) = Inr (of_int n)"
proof -
  have r: "rd (of_int n) = of_int n" using assms by (rule rd_of_int)
  have "ilog2 (of_int n) < 54" if "n \<noteq> 0"
  proof (rule ilog2_less)
    show "(of_int n :: rat) \<noteq> 0" using that by simp
    have "(of_int \<bar>n\<bar> :: rat) \<le> of_int (2 ^ 53)" using assms by (simp only: of_int_le_iff)
    then show "\<bar>of_int n :: rat\<bar> < power_int 2 54" by simp
  qed
  then show ?thesis by (auto simp: dbl_def r Let_def)
qed

lemma rd_of_int_integer: "\<exists>m. rd (of_int n) = of_int m"
proof (cases "\<bar>n\<bar> \<le> 2 ^ 53")
  case True
  then show ?thesis using rd_of_int by blast
next
  case False
  define x :: rat where "x = of_int n"
  have x: "x \<noteq> 0" using False by (auto simp: x_def)
  have "2 ^ 53 \<le> \<bar>n\<bar>" using False by simp
  then have "(of_int (2 ^ 53) :: rat) \<le> of_int \<bar>n\<bar>" by (simp only: of_int_le_iff)
  then have "power_int 2 53 \<le> \<bar>x\<bar>" by (simp add: x_def)
  then have e: "53 \<le> ilog2 x" using x by (intro ilog2_ge)
  then have mx: "max (ilog2 x - 52) (- 1074) = ilog2 x - 52" by simp
  have u: "power_int (2::rat) (ilog2 x - 52) = of_int (2 ^ nat (ilog2 x - 52))"
    using e by (simp add: power_int_def)
  have "rd x = of_int (round_half_even (x / power_int 2 (ilog2 x - 52)) * 2 ^ nat (ilog2 x - 52))"
    using x by (simp add: rd_def Let_def mx u)
  then show ?thesis unfolding x_def by blast
qed

lemma num_mul_exact:
  assumes "\<bar>a * b\<bar> \<le> 2 ^ 53"
  shows "num_mul a b = Inr (a * b)"
proof -
  have "dbl (of_int (a * b)) = Inr (of_int (a * b))" using assms by (rule dbl_of_int)
  then have "dbl (of_int a * of_int b) = Inr (of_int (a * b))" by (simp only: of_int_mult)
  then show ?thesis by (simp only: num_mul_def js_mul_def sum.case floor_of_int)
qed

lemma num_add_exact:
  assumes "\<bar>a + b\<bar> \<le> 2 ^ 53"
  shows "num_add a b = Inr (a + b)"
proof -
  have "dbl (of_int (a + b)) = Inr (of_int (a + b))" using assms by (rule dbl_of_int)
  then have "dbl (of_int a + of_int b) = Inr (of_int (a + b))" by (simp only: of_int_add)
  then show ?thesis by (simp only: num_add_def js_add_def sum.case floor_of_int)
qed

lemma num_sub_exact:
  assumes "\<bar>a - b\<bar> \<le> 2 ^ 53"
  shows "num_sub a b = Inr (a - b)"
proof -
  have "dbl (of_int (a - b)) = Inr (of_int (a - b))" using assms by (rule dbl_of_int)
  then have "dbl (of_int a - of_int b) = Inr (of_int (a - b))" by (simp only: of_int_diff)
  then show ?thesis by (simp only: num_sub_def js_sub_def sum.case floor_of_int)
qed

lemma rd_quotient_floor:
  assumes a: "0 < a" "a < 2 ^ 53" and b: "2 \<le> b" "b \<le> 2 ^ 53"
  shows "of_int (a div b) \<le> rd (of_int a / of_int b)
         \<and> rd (of_int a / of_int b) < of_int (a div b) + 1"
proof -
  define x :: rat where "x = of_int a / of_int b"
  define q where "q = a div b"
  define e where "e = ilog2 x"
  have bpos: "(0::rat) < of_int b" using b by simp
  have xpos: "0 < x" using a b by (simp add: x_def)
  then have x0: "x \<noteq> 0" and ax: "\<bar>x\<bar> = x" by simp_all
  \<comment> \<open>the binade of the quotient\<close>
  have "of_int a < (of_int (2 ^ 53) :: rat)" using a(2) by (simp only: of_int_less_iff)
  then have a53: "of_int a < (2 ^ 53 :: rat)" by simp
  have "(of_int 2 :: rat) \<le> of_int b" using b(1) by (simp only: of_int_le_iff)
  then have b2: "(2::rat) \<le> of_int b" by simp
  have "(2 ^ 53 :: rat) = 2 ^ 52 * 2" by simp
  also have "\<dots> \<le> 2 ^ 52 * of_int b" using b2 by (intro mult_left_mono) simp_all
  finally have "(2 ^ 53 :: rat) \<le> 2 ^ 52 * of_int b" .
  with a53 have "of_int a < (2 ^ 52 :: rat) * of_int b" by (rule less_le_trans)
  then have "x < power_int 2 52" using bpos by (simp add: x_def pos_divide_less_eq)
  then have e_hi: "e \<le> 51" using ilog2_less[OF x0, of 52] by (simp add: ax e_def)
  have "(1::rat) \<le> of_int a" using a(1) by simp
  moreover have "of_int b \<le> (of_int (2 ^ 53) :: rat)" using b(2) by (simp only: of_int_le_iff)
  ultimately have "1 / 2 ^ 53 \<le> x"
    using bpos by (simp add: x_def field_simps) 
  then have "power_int 2 (- 53) \<le> \<bar>x\<bar>" by (simp add: ax power_int_minus inverse_eq_divide)
  then have e_lo: "- 53 \<le> e" using ilog2_ge[OF x0, of "- 53"] by (simp add: e_def)
  have brk: "power_int 2 e \<le> x" using ilog2_bounds[OF x0] by (simp add: ax e_def)
  \<comment> \<open>the unit of the last place is 1 / M\<close>
  define Mi :: int where "Mi = 2 ^ nat (52 - e)"
  define M :: rat where "M = of_int Mi"
  have M_pow: "M = power_int 2 (52 - e)" using e_hi by (simp add: M_def Mi_def power_int_def)
  have Mpos: "0 < M" by (simp add: M_pow)
  have mx: "max (e - 52) (- 1074) = - (52 - e)" using e_lo by simp
  have u: "power_int 2 (max (ilog2 x - 52) (- 1074)) = inverse M"
    unfolding e_def[symmetric] mx M_pow by (rule power_int_minus)
  define y where "y = x * M"
  have rd: "rd x = of_int (round_half_even y) / M"
    by (simp only: rd_def Let_def u x0 if_False y_def divide_inverse inverse_inverse_eq)
  \<comment> \<open>the divisor is below twice M\<close>
  have "of_int b * power_int 2 e \<le> (of_int a :: rat)"
    using brk bpos by (simp add: x_def pos_le_divide_eq mult.commute)
  also have "\<dots> < power_int 2 53" using \<open>of_int a < (of_int (2 ^ 53) :: rat)\<close> by simp
  also have "\<dots> = (2 * M) * power_int 2 e"
  proof -
    have "(2 * M) * power_int 2 e = power_int 2 1 * power_int 2 (52 - e) * power_int (2::rat) e"
      by (simp add: M_pow)
    also have "\<dots> = power_int 2 (1 + (52 - e) + e)"
      by (simp only: power_int_add[of "2::rat", simplified, symmetric])
    finally show ?thesis by simp
  qed
  finally have b2M: "of_int b < 2 * M" by simp
  \<comment> \<open>the quotient between q and q + 1 - 1 / b\<close>
  have ab: "a = b * q + a mod b" by (simp add: q_def)
  have r: "0 \<le> a mod b" "a mod b \<le> b - 1" using b by simp_all
  have x_lo: "of_int q \<le> x"
  proof -
    have "b * q \<le> a" using ab r(1) by linarith
    then have "(of_int (b * q) :: rat) \<le> of_int a" by (simp only: of_int_le_iff)
    then show ?thesis using bpos by (simp add: x_def pos_le_divide_eq mult.commute)
  qed
  have x_hi: "x * of_int b \<le> (of_int q + 1) * of_int b - 1"
  proof -
    have "a \<le> (q + 1) * b - 1" using ab r(2) by (simp add: algebra_simps)
    then have "(of_int a :: rat) \<le> of_int ((q + 1) * b - 1)" by (simp only: of_int_le_iff)
    then show ?thesis using bpos by (simp add: x_def)
  qed
  \<comment> \<open>rounding stays inside\<close>
  have "of_int (q * Mi) \<le> y" using x_lo Mpos by (simp add: y_def M_def)
  then have "q * Mi \<le> \<lfloor>y\<rfloor>" by (simp only: le_floor_iff)
  then have "q * Mi \<le> round_half_even y" using floor_le_round_half_even[of y] by linarith
  then have "(of_int (q * Mi) :: rat) \<le> of_int (round_half_even y)" by (simp only: of_int_le_iff)
  then have lo: "of_int q \<le> rd x" using Mpos by (simp add: rd M_def pos_le_divide_eq)
  have "y * of_int b \<le> ((of_int q + 1) * of_int b - 1) * M"
    using x_hi Mpos by (simp add: y_def mult.assoc mult.left_commute mult_right_mono mult.commute)
  also have "\<dots> = (of_int q + 1) * M * of_int b - M" by (simp add: algebra_simps)
  also have "\<dots> < (of_int q + 1) * M * of_int b - of_int b / 2" using b2M by simp
  also have "\<dots> = ((of_int q + 1) * M - 1 / 2) * of_int b" by (simp add: algebra_simps)
  finally have "y < (of_int q + 1) * M - 1 / 2" using bpos by simp
  then have "of_int (round_half_even y) < (of_int q + 1) * M"
    using round_half_even_le[of y] by linarith
  then have hi: "rd x < of_int q + 1" using Mpos by (simp add: rd pos_divide_less_eq)
  from lo hi show ?thesis by (simp add: x_def q_def)
qed

lemma num_floor_div_exact:
  assumes "0 \<le> a" and "a < 2 ^ 53" and "0 < b" and "b \<le> 2 ^ 53"
  shows "num_floor_div a b = Inr (a div b)"
proof -
  consider "a = 0" | "b = 1" | "0 < a" "2 \<le> b" using assms by linarith
  then show ?thesis
  proof cases
    case 1
    then show ?thesis using assms(3) dbl_of_int[of 0] by (simp add: num_floor_div_def js_div_def)
  next
    case 2
    then show ?thesis using assms dbl_of_int[of a] by (simp add: num_floor_div_def js_div_def)
  next
    case 3
    define r where "r = rd (of_int a / of_int b)"
    have b: "of_int (a div b) \<le> r" "r < of_int (a div b) + 1"
      using rd_quotient_floor[OF 3(1) assms(2) 3(2) assms(4)] by (simp_all add: r_def)
    have fl: "\<lfloor>r\<rfloor> = a div b" using b by (simp add: floor_unique)
    have q0: "0 \<le> a div b" using assms by (simp add: pos_imp_zdiv_nonneg_iff)
    have "a div b \<le> a div 1" using assms by (intro zdiv_mono2) simp_all
    then have "a div b + 1 \<le> 2 ^ 53" using assms(2) by simp
    then have "(of_int (a div b + 1) :: rat) \<le> of_int (2 ^ 53)" by (simp only: of_int_le_iff)
    then have up: "of_int (a div b) + 1 \<le> (2 ^ 53 :: rat)" by simp
    have "(of_int 0 :: rat) \<le> of_int (a div b)" using q0 by (simp only: of_int_le_iff)
    then have "0 \<le> r" using b(1) by simp
    moreover have "r < 2 ^ 53" using b(2) up by (rule less_le_trans)
    ultimately have "\<bar>r\<bar> < 2 ^ 53" by simp
    then have small: "\<bar>r\<bar> < power_int 2 53" by simp
    have "ilog2 r < 53" if "r \<noteq> 0" using that small by (rule ilog2_less)
    then have "dbl (of_int a / of_int b) = Inr r"
      by (auto simp: dbl_def Let_def r_def)
    then show ?thesis using assms(3) by (simp add: num_floor_div_def js_div_def fl)
  qed
qed

subsection \<open>getActualAxisFromNegativeValue\<close>

lemma getActualAxisFromNegativeValue_never_throws:
  "1 \<le> tensorRank \<Longrightarrow>
   getActualAxisFromNegativeValue axis tensorRank =
     Inr (if axis < 0 then axis + tensorRank else axis)"
  by (simp add: getActualAxisFromNegativeValue_def)

text \<open>
  C3. The claim: for every rank at least 1 the function fails for every axis below
  \<open>- tensorRank\<close>, returns \<open>axis + tensorRank\<close> for an axis in \<open>[- tensorRank, -1]\<close> and
  returns a non-negative axis unchanged. The guard of the source joins its two tests
  with \<open>&&\<close>, so it never holds: at axis \<open>-3\<close> and rank \<open>2\<close> the function returns \<open>-1\<close>
  instead of failing. The other two parts hold, here at \<open>-1\<close> and at \<open>1\<close>.
\<close>

theorem getActualAxisFromNegativeValue_below_range_returns:
  "getActualAxisFromNegativeValue (- 3) 2 = Inr (- 1)
   \<and> getActualAxisFromNegativeValue (- 1) 2 = Inr 1
   \<and> getActualAxisFromNegativeValue 1 2 = Inr 1"
  by (simp add: getActualAxisFromNegativeValue_def)

subsection \<open>The block copy and MathUtil\<close>

text \<open>
  C4. Whenever \<open>sourceIndex\<close> is outside \<open>[0, source.length)\<close>, or \<open>targetIndex\<close> is outside
  \<open>[0, target.length)\<close>, or \<open>sourceIndex + blockSize\<close> exceeds \<open>source.length\<close>, or
  \<open>targetIndex + blockSize\<close> exceeds \<open>target.length\<close>, each of \<open>arrayCopyHelper\<close>, \<open>sqr\<close>,
  \<open>axpy\<close>, \<open>powx\<close> and \<open>mul\<close> fails with a bounds error and leaves the store, hence both
  buffers, as it was, whatever the platform's arithmetic and the element types of the
  buffers are.
\<close>

theorem bounds_violation_fails_without_write:
  assumes "sourceIndex < 0 \<or> sourceIndex \<ge> int (length (st source))
      \<or> targetIndex < 0 \<or> targetIndex \<ge> int (length (st target))
      \<or> sourceIndex + blockSize > int (length (st source))
      \<or> targetIndex + blockSize > int (length (st target))"
  shows "bounds_error (fst (arrayCopyHelper P st target source targetIndex sourceIndex blockSize))
         \<and> snd (arrayCopyHelper P st target source targetIndex sourceIndex blockSize) = st
       \<and> bounds_error (fst (sqr P st target source targetIndex sourceIndex blockSize))
         \<and> snd (sqr P st target source targetIndex sourceIndex blockSize) = st
       \<and> bounds_error (fst (axpy P st target source targetIndex sourceIndex blockSize alpha))
         \<and> snd (axpy P st target source targetIndex sourceIndex blockSize alpha) = st
       \<and> bounds_error (fst (powx P st target source targetIndex sourceIndex blockSize b))
         \<and> snd (powx P st target source targetIndex sourceIndex blockSize b) = st
       \<and> bounds_error (fst (mul P st target source targetIndex sourceIndex blockSize))
         \<and> snd (mul P st target source targetIndex sourceIndex blockSize) = st"
  using assms
  by (auto simp: bounds_error_def arrayCopyHelper_def sqr_def axpy_def powx_def mul_def)

text \<open>
  The theorem at a target of three elements and a source of two, for a block of two
  elements written from index \<open>2\<close> of the target: \<open>2 + 2\<close> exceeds \<open>3\<close>. The numbers are
  reals with their arithmetic, stored as they are (\<open>real_platform\<close>).
\<close>

theorem bounds_violation_fails_without_write_witness:
  "(2::int) + 2 > int (length (((\<lambda>_. [])(0 := [1, 2, 3], 1 := [4, 5])) (0::nat) :: real list))
   \<and> bounds_error (fst (arrayCopyHelper real_platform ((\<lambda>_. [])(0 := [1, 2, 3], 1 := [4, 5])) 0 1 2 0 2))
   \<and> snd (arrayCopyHelper real_platform ((\<lambda>_. [])(0 := [1, 2, 3], 1 := [4, 5])) 0 1 2 0 2)
       = (\<lambda>_. [])(0 := [1, 2, 3], 1 := [4, 5])
   \<and> bounds_error (fst (sqr real_platform ((\<lambda>_. [])(0 := [1, 2, 3], 1 := [4, 5])) 0 1 2 0 2))
   \<and> snd (sqr real_platform ((\<lambda>_. [])(0 := [1, 2, 3], 1 := [4, 5])) 0 1 2 0 2)
       = (\<lambda>_. [])(0 := [1, 2, 3], 1 := [4, 5])
   \<and> bounds_error (fst (axpy real_platform ((\<lambda>_. [])(0 := [1, 2, 3], 1 := [4, 5])) 0 1 2 0 2 7))
   \<and> snd (axpy real_platform ((\<lambda>_. [])(0 := [1, 2, 3], 1 := [4, 5])) 0 1 2 0 2 7)
       = (\<lambda>_. [])(0 := [1, 2, 3], 1 := [4, 5])
   \<and> bounds_error (fst (powx real_platform ((\<lambda>_. [])(0 := [1, 2, 3], 1 := [4, 5])) 0 1 2 0 2 3))
   \<and> snd (powx real_platform ((\<lambda>_. [])(0 := [1, 2, 3], 1 := [4, 5])) 0 1 2 0 2 3)
       = (\<lambda>_. [])(0 := [1, 2, 3], 1 := [4, 5])
   \<and> bounds_error (fst (mul real_platform ((\<lambda>_. [])(0 := [1, 2, 3], 1 := [4, 5])) 0 1 2 0 2))
   \<and> snd (mul real_platform ((\<lambda>_. [])(0 := [1, 2, 3], 1 := [4, 5])) 0 1 2 0 2)
       = (\<lambda>_. [])(0 := [1, 2, 3], 1 := [4, 5])"
  using bounds_violation_fails_without_write
    [where st = "(\<lambda>_. [])(0 := [1, 2, 3], 1 := [4, 5])" and target = 0 and source = 1
       and targetIndex = 2 and sourceIndex = 0 and blockSize = 2
       and P = real_platform and alpha = 7 and b = 3]
  by simp

text \<open>
  C10. With \<open>targetIndex\<close> inside the target, \<open>sourceIndex\<close> inside the source and a block
  size of \<open>0\<close> or less, each of the five functions returns without an error and leaves
  the store, hence both buffers, as it was.
\<close>

theorem empty_block_returns_without_write:
  assumes "0 \<le> targetIndex" and "targetIndex < int (length (st target))"
    and "0 \<le> sourceIndex" and "sourceIndex < int (length (st source))"
    and "blockSize \<le> 0"
  shows "arrayCopyHelper P st target source targetIndex sourceIndex blockSize = (Inr (), st)
       \<and> sqr P st target source targetIndex sourceIndex blockSize = (Inr (), st)
       \<and> axpy P st target source targetIndex sourceIndex blockSize alpha = (Inr (), st)
       \<and> powx P st target source targetIndex sourceIndex blockSize b = (Inr (), st)
       \<and> mul P st target source targetIndex sourceIndex blockSize = (Inr (), st)"
  using assms
  by (simp add: arrayCopyHelper_def sqr_def axpy_def powx_def mul_def blockLoop.simps)

text \<open>The theorem at the same store, for a block of size \<open>-1\<close> from index \<open>2\<close> to index \<open>1\<close>.\<close>

theorem empty_block_returns_without_write_witness:
  "(1::int) < int (length (((\<lambda>_. [])(0 := [1, 2, 3], 1 := [4, 5])) (1::nat) :: real list))
   \<and> (2::int) < int (length (((\<lambda>_. [])(0 := [1, 2, 3], 1 := [4, 5])) (0::nat) :: real list))
   \<and> arrayCopyHelper real_platform ((\<lambda>_. [])(0 := [1, 2, 3], 1 := [4, 5])) 0 1 2 1 (- 1)
       = (Inr (), (\<lambda>_. [])(0 := [1, 2, 3], 1 := [4, 5]))
   \<and> sqr real_platform ((\<lambda>_. [])(0 := [1, 2, 3], 1 := [4, 5])) 0 1 2 1 (- 1)
       = (Inr (), (\<lambda>_. [])(0 := [1, 2, 3], 1 := [4, 5]))
   \<and> axpy real_platform ((\<lambda>_. [])(0 := [1, 2, 3], 1 := [4, 5])) 0 1 2 1 (- 1) 7
       = (Inr (), (\<lambda>_. [])(0 := [1, 2, 3], 1 := [4, 5]))
   \<and> powx real_platform ((\<lambda>_. [])(0 := [1, 2, 3], 1 := [4, 5])) 0 1 2 1 (- 1) 3
       = (Inr (), (\<lambda>_. [])(0 := [1, 2, 3], 1 := [4, 5]))
   \<and> mul real_platform ((\<lambda>_. [])(0 := [1, 2, 3], 1 := [4, 5])) 0 1 2 1 (- 1)
       = (Inr (), (\<lambda>_. [])(0 := [1, 2, 3], 1 := [4, 5]))"
  using empty_block_returns_without_write
    [where st = "(\<lambda>_. [])(0 := [1, 2, 3], 1 := [4, 5])" and target = 0 and source = 1
       and targetIndex = 2 and sourceIndex = 1 and blockSize = "- 1"
       and P = real_platform and alpha = 7 and b = 3]
  by simp

subsection \<open>calculateReshapedDims\<close>

text \<open>
  C2. The claim: for a hint vector without \<open>-1\<close> the size of the reshaped dimensions
  equals the size of the original ones, a mismatched total being rejected; and
  \<open>calculateReshapedDims([2,2],[0,-1]) = [2,2]\<close>, \<open>calculateReshapedDims([2,2],[4]) = [4]\<close>,
  \<open>calculateReshapedDims([2,2],[5])\<close> fails. The source compares sizes only when a hint
  is \<open>-1\<close>: for the hints \<open>[5]\<close> it returns \<open>[5]\<close>, of size \<open>5\<close>, for the original shape
  \<open>[2,2]\<close>, of size \<open>4\<close>. The two other examples are as claimed.
\<close>

theorem calculateReshapedDims_mismatch_returns:
  "calculateReshapedDims [2, 2] [5] = Inr [Some 5]
   \<and> size_of [5] = Inr 5 \<and> size_of [2, 2] = Inr 4
   \<and> calculateReshapedDims [2, 2] [0, - 1] = Inr [Some 2, Some 2]
   \<and> calculateReshapedDims [2, 2] [4] = Inr [Some 4]"
  by code_simp

subsection \<open>adjustPadAndReturnShape\<close>

text \<open>
  Integers up to \<open>2^53\<close> and the halves that occur at input size \<open>32\<close>, stride \<open>2\<close> and
  kernel \<open>3\<close> are doubles: no operation rounds there.
\<close>

lemma dbl_numeral:
  "\<bar>numeral n :: int\<bar> \<le> 2 ^ 53 \<Longrightarrow> dbl (numeral n) = Inr (numeral n)"
  using dbl_of_int[of "numeral n"] by simp

lemma dbl_one: "dbl 1 = Inr 1"
  using dbl_of_int[of 1] by simp

lemma dbl_halves:
  "dbl (33 / 2) = Inr (33 / 2)" "dbl (31 / 2) = Inr (31 / 2)" "dbl (3 / 2) = Inr (3 / 2)"
  by code_simp+

lemma floor_halves: "\<lfloor>33 / 2 :: rat\<rfloor> = 16" "\<lfloor>3 / 2 :: rat\<rfloor> = 1"
  by (rule floor_unique; simp)+

lemma same_upper_at_32_2_3:
  "adjustPadAndReturnShape 32 2 3 [Some 0, Some 0] 0 1 (Some ''SAME_UPPER'')
     = Inr ([Some 1, Some 1], 16)"
  by (simp add: adjustPadAndReturnShape_def bindE_def js_add_def js_sub_def js_mul_def
        js_div_def dbl_numeral dbl_one dbl_halves floor_halves js_set_def Let_def)

lemma same_lower_at_32_2_3:
  "adjustPadAndReturnShape 32 2 3 [Some 0, Some 0] 0 1 (Some ''SAME_LOWER'')
     = Inr ([Some 1, Some 1], 16)"
  by (simp add: adjustPadAndReturnShape_def bindE_def js_add_def js_sub_def js_mul_def
        js_div_def dbl_numeral dbl_one dbl_halves floor_halves js_set_def Let_def)

text \<open>
  C1. The claim: under \<open>SAME_UPPER\<close> the pad needed is
  \<open>max(0, (ceil(inSize/stride) - 1) * stride + kernel - inSize)\<close>, the head pad is its half
  rounded down and the tail pad the rest, and the output size is
  \<open>floor((inSize + padNeeded - kernel) / stride) + 1\<close>; under \<open>SAME_LOWER\<close> the head pad is
  the half rounded up; for input size \<open>32\<close>, stride \<open>2\<close> and kernel \<open>3\<close> the pads are
  \<open>(0,1)\<close> with output size \<open>16\<close>, and \<open>(1,0)\<close>. At that input the source computes
  \<open>legacyTargetSize = 33 / 2\<close>, which it does not round to an integer, and
  \<open>padNeeded = 2\<close>: it writes the pads \<open>(1,1)\<close> in both modes, and returns \<open>16\<close>.
\<close>

theorem adjustPadAndReturnShape_same_pads_at_32_2_3:
  "adjustPadAndReturnShape 32 2 3 [Some 0, Some 0] 0 1 (Some ''SAME_UPPER'')
     = Inr ([Some 1, Some 1], 16)
   \<and> adjustPadAndReturnShape 32 2 3 [Some 0, Some 0] 0 1 (Some ''SAME_LOWER'')
     = Inr ([Some 1, Some 1], 16)
   \<and> computePoolOutputShape False [1, 3, 32] [2] [3] [Some 0, Some 0] (Some ''SAME_UPPER'')
     = Inr ([1, 3, 16], [Some 1, Some 1])
   \<and> computePoolOutputShape False [1, 3, 32] [2] [3] [Some 0, Some 0] (Some ''SAME_LOWER'')
     = Inr ([1, 3, 16], [Some 1, Some 1])"
proof -
  have loop: "computeShapeHelper_loop [1, 3, 32] [2] [3] autoPad 0 ([1, 3], [Some 0, Some 0])
      = Inr ([1, 3, 16], [Some 1, Some 1])"
    if "adjustPadAndReturnShape 32 2 3 [Some 0, Some 0] 0 1 autoPad = Inr ([Some 1, Some 1], 16)"
    for autoPad
    using that
    by (simp add: computeShapeHelper_loop.simps[of _ _ _ _ 0] computeShapeHelper_loop.simps[of _ _ _ _ 1]
          js_get_def)
  show ?thesis
    using loop[OF same_upper_at_32_2_3] loop[OF same_lower_at_32_2_3]
    by (simp add: same_upper_at_32_2_3 same_lower_at_32_2_3 computePoolOutputShape_def
          computeShapeHelper_def js_get_def)
qed

subsection \<open>Broadcasting\<close>

text \<open>\<open>isValidBroadcast\<close> decides unidirectional broadcasting as the specification words it.\<close>

lemma isValidBroadcast_loop_iff:
  assumes "1 \<le> i" and "length shape \<le> length finalShape"
  shows "isValidBroadcast_loop shape finalShape i \<longleftrightarrow>
         (\<forall>j. i \<le> j \<and> j \<le> int (length shape) \<longrightarrow>
              shape ! nat (int (length shape) - j) = 1
              \<or> shape ! nat (int (length shape) - j) = finalShape ! nat (int (length finalShape) - j))"
  using assms
proof (induction shape finalShape i rule: isValidBroadcast_loop.induct)
  case (1 shape finalShape i)
  let ?P = "\<lambda>j. shape ! nat (int (length shape) - j) = 1
              \<or> shape ! nat (int (length shape) - j) = finalShape ! nat (int (length finalShape) - j)"
  show ?case
  proof (cases "i \<le> int (length shape)")
    case False
    then show ?thesis
      by (subst isValidBroadcast_loop.simps) (simp add: Let_def)
  next
    case True
    show ?thesis
    proof (cases "?P i")
      case False
      then have "\<not> isValidBroadcast_loop shape finalShape i"
        using True by (subst isValidBroadcast_loop.simps) (simp add: Let_def)
      moreover have "\<not> (\<forall>j. i \<le> j \<and> j \<le> int (length shape) \<longrightarrow> ?P j)"
        using False True by blast
      ultimately show ?thesis by blast
    next
      case Pi: True
      have step: "isValidBroadcast_loop shape finalShape i
                  = isValidBroadcast_loop shape finalShape (i + 1)"
        using True Pi by (subst isValidBroadcast_loop.simps) (auto simp: Let_def)
      have IH: "isValidBroadcast_loop shape finalShape (i + 1) \<longleftrightarrow>
                (\<forall>j. i + 1 \<le> j \<and> j \<le> int (length shape) \<longrightarrow> ?P j)"
        using "1.IH"[OF refl refl True] Pi "1.prems" by auto
      have "(\<forall>j. i \<le> j \<and> j \<le> int (length shape) \<longrightarrow> ?P j)
            \<longleftrightarrow> (\<forall>j. i + 1 \<le> j \<and> j \<le> int (length shape) \<longrightarrow> ?P j)"
      proof
        assume a: "\<forall>j. i + 1 \<le> j \<and> j \<le> int (length shape) \<longrightarrow> ?P j"
        show "\<forall>j. i \<le> j \<and> j \<le> int (length shape) \<longrightarrow> ?P j"
        proof (intro allI impI)
          fix j assume "i \<le> j \<and> j \<le> int (length shape)"
          then consider "j = i" | "i + 1 \<le> j \<and> j \<le> int (length shape)" by linarith
          then show "?P j" using Pi a by cases blast+
        qed
      qed auto
      with step IH show ?thesis by simp
    qed
  qed
qed

lemma isValidBroadcast_iff: "isValidBroadcast shape finalShape \<longleftrightarrow> broadcasts_into shape finalShape"
proof (cases "length shape \<le> length finalShape")
  case False
  then show ?thesis by (simp add: isValidBroadcast_def broadcasts_into_def)
next
  case True
  let ?n = "length shape" and ?m = "length finalShape"
  have "isValidBroadcast shape finalShape \<longleftrightarrow>
        (\<forall>j. 1 \<le> j \<and> j \<le> int ?n \<longrightarrow>
              shape ! nat (int ?n - j) = 1
              \<or> shape ! nat (int ?n - j) = finalShape ! nat (int ?m - j))"
    using True isValidBroadcast_loop_iff[of 1 shape finalShape]
    by (simp add: isValidBroadcast_def)
  also have "\<dots> \<longleftrightarrow> (\<forall>k < ?n. shape ! k = 1 \<or> shape ! k = finalShape ! (?m - ?n + k))"
  proof (intro iffI allI impI)
    fix k assume a: "\<forall>j. 1 \<le> j \<and> j \<le> int ?n \<longrightarrow>
              shape ! nat (int ?n - j) = 1
              \<or> shape ! nat (int ?n - j) = finalShape ! nat (int ?m - j)" and k: "k < ?n"
    have "nat (int ?n - (int ?n - int k)) = k" by simp
    moreover have "nat (int ?m - (int ?n - int k)) = ?m - ?n + k" using True k by linarith
    ultimately show "shape ! k = 1 \<or> shape ! k = finalShape ! (?m - ?n + k)"
      using a[rule_format, of "int ?n - int k"] k by simp
  next
    fix j assume a: "\<forall>k < ?n. shape ! k = 1 \<or> shape ! k = finalShape ! (?m - ?n + k)"
      and j: "1 \<le> j \<and> j \<le> int ?n"
    have "nat (int ?n - j) < ?n" using j by linarith
    moreover have "?m - ?n + nat (int ?n - j) = nat (int ?m - j)" using True j by linarith
    ultimately show "shape ! nat (int ?n - j) = 1
              \<or> shape ! nat (int ?n - j) = finalShape ! nat (int ?m - j)"
      using a[rule_format, of "nat (int ?n - j)"] by simp
  qed
  also have "\<dots> \<longleftrightarrow> broadcasts_into shape finalShape"
    using True by (simp add: broadcasts_into_def list_all2_conv_all_nth)
  finally show ?thesis .
qed

text \<open>
  What the loop of \<open>calcShape\<close> leaves in \<open>cdims\<close> when it returns: every cell from
  \<open>crank - i\<close> down to \<open>0\<close> holds the larger of the two aligned dimensions, which are
  compatible, and the cells to the right are as they were.
\<close>

lemma js_set_inside: "0 \<le> i \<Longrightarrow> nat i < length xs \<Longrightarrow> js_set xs i v = xs[nat i := Some v]"
  by (simp add: js_set_def)

lemma calcShape_loop_result:
  assumes "calcShape_loop a b crank i cdims = Some c" and "1 \<le> i" and "length cdims = nat crank"
  shows "length c = nat crank
         \<and> (\<forall>j. i \<le> j \<and> j \<le> crank \<longrightarrow>
               c ! nat (crank - j) = Some (max (aligned_dim a j) (aligned_dim b j))
               \<and> \<not> (aligned_dim a j \<noteq> aligned_dim b j \<and> aligned_dim a j > 1 \<and> aligned_dim b j > 1))
         \<and> (\<forall>k < nat crank. int k > crank - i \<longrightarrow> c ! k = cdims ! k)"
  using assms
proof (induction a b crank i cdims rule: calcShape_loop.induct)
  case (1 adims bdims crank i cdims)
  let ?aLen = "aligned_dim adims i" and ?bLen = "aligned_dim bdims i"
  show ?case
  proof (cases "i \<le> crank")
    case False
    with "1.prems" show ?thesis
      by (subst (asm) calcShape_loop.simps) auto
  next
    case True
    have ok: "\<not> (?aLen \<noteq> ?bLen \<and> ?aLen > 1 \<and> ?bLen > 1)"
      using "1.prems"(1) True
      by (subst (asm) calcShape_loop.simps) (auto simp: Let_def aligned_dim_def split: if_splits)
    define cdims' where "cdims' = js_set cdims (crank - i) (max ?aLen ?bLen)"
    have inside: "0 \<le> crank - i" "nat (crank - i) < length cdims"
      using True "1.prems" by auto
    have cdims': "cdims' = cdims[nat (crank - i) := Some (max ?aLen ?bLen)]"
      unfolding cdims'_def using inside by (rule js_set_inside)
    have step: "calcShape_loop adims bdims crank (i + 1) cdims' = Some c"
      using "1.prems"(1) True ok
      by (subst (asm) calcShape_loop.simps) (auto simp: Let_def aligned_dim_def cdims'_def split: if_splits)
    have IH: "length c = nat crank
         \<and> (\<forall>j. i + 1 \<le> j \<and> j \<le> crank \<longrightarrow>
               c ! nat (crank - j) = Some (max (aligned_dim adims j) (aligned_dim bdims j))
               \<and> \<not> (aligned_dim adims j \<noteq> aligned_dim bdims j \<and> aligned_dim adims j > 1 \<and> aligned_dim bdims j > 1))
         \<and> (\<forall>k < nat crank. int k > crank - (i + 1) \<longrightarrow> c ! k = cdims' ! k)"
    proof (rule "1.IH"[OF True refl refl refl refl, folded aligned_dim_def, folded cdims'_def])
      show "\<not> (?aLen \<noteq> ?bLen \<and> 1 < ?aLen \<and> 1 < ?bLen)" using ok by simp
      show "calcShape_loop adims bdims crank (i + 1) cdims' = Some c" by (rule step)
      show "1 \<le> i + 1" using "1.prems" by simp
      show "length cdims' = nat crank" using "1.prems" by (simp add: cdims')
    qed
    have at_i: "c ! nat (crank - i) = Some (max ?aLen ?bLen)"
    proof -
      have "nat (crank - i) < nat crank" using inside "1.prems" by simp
      moreover have "int (nat (crank - i)) > crank - (i + 1)" using inside by simp
      ultimately have "c ! nat (crank - i) = cdims' ! nat (crank - i)" using IH by blast
      then show ?thesis using inside by (simp add: cdims')
    qed
    have written: "\<forall>j. i \<le> j \<and> j \<le> crank \<longrightarrow>
               c ! nat (crank - j) = Some (max (aligned_dim adims j) (aligned_dim bdims j))
               \<and> \<not> (aligned_dim adims j \<noteq> aligned_dim bdims j \<and> aligned_dim adims j > 1 \<and> aligned_dim bdims j > 1)"
    proof (intro allI impI)
      fix j assume j: "i \<le> j \<and> j \<le> crank"
      then consider "j = i" | "i + 1 \<le> j \<and> j \<le> crank" by linarith
      then show "c ! nat (crank - j) = Some (max (aligned_dim adims j) (aligned_dim bdims j))
               \<and> \<not> (aligned_dim adims j \<noteq> aligned_dim bdims j \<and> aligned_dim adims j > 1 \<and> aligned_dim bdims j > 1)"
      proof cases
        case 1 then show ?thesis using at_i ok by simp
      next
        case 2 then show ?thesis using IH by blast
      qed
    qed
    have kept: "\<forall>k < nat crank. int k > crank - i \<longrightarrow> c ! k = cdims ! k"
    proof (intro allI impI)
      fix k assume k: "k < nat crank" "int k > crank - i"
      then have "c ! k = cdims' ! k" using IH by simp
      moreover have "k \<noteq> nat (crank - i)" using k inside by linarith
      ultimately show "c ! k = cdims ! k" by (simp add: cdims')
    qed
    from IH written kept show ?thesis by blast
  qed
qed

lemma aligned_dim_pos:
  assumes "\<forall>x\<in>set dims. 0 < x" and "1 \<le> j"
  shows "0 < aligned_dim dims j"
proof (cases "int (length dims) - j < 0")
  case True
  then show ?thesis by (simp add: aligned_dim_def)
next
  case False
  then have "nat (int (length dims) - j) < length dims" using assms(2) by linarith
  then have "dims ! nat (int (length dims) - j) \<in> set dims" by (rule nth_mem)
  then show ?thesis using assms(1) False by (simp add: aligned_dim_def)
qed

text \<open>
  C6. For shapes \<open>a\<close> and \<open>b\<close> of positive integers, whenever \<open>calcShape(a, b)\<close>, not for a
  matrix product, returns a shape \<open>c\<close>, that shape has no hole and
  \<open>isValidBroadcast(a, c)\<close> is true: the rank of \<open>a\<close> is at most the rank of \<open>c\<close> and every
  right-aligned dimension of \<open>a\<close> is \<open>1\<close> or the dimension of \<open>c\<close> that it meets.
\<close>

theorem calcShape_result_accepts_first_operand:
  assumes apos: "\<forall>x\<in>set a. 0 < x" and bpos: "\<forall>x\<in>set b. 0 < x"
    and res: "calcShape a b False = Some c"
  shows "\<exists>c'. c = map Some c' \<and> isValidBroadcast a c' \<and> broadcasts_into a c'"
proof -
  define m where "m = max (length a) (length b)"
  let ?n = "length a"
  have loop: "calcShape_loop a b (int m) 1 (replicate m None) = Some c"
    using res by (simp add: calcShape_def Let_def m_def)
  have inv: "length c = m
         \<and> (\<forall>j. 1 \<le> j \<and> j \<le> int m \<longrightarrow>
               c ! nat (int m - j) = Some (max (aligned_dim a j) (aligned_dim b j))
               \<and> \<not> (aligned_dim a j \<noteq> aligned_dim b j \<and> aligned_dim a j > 1 \<and> aligned_dim b j > 1))"
    using calcShape_loop_result[OF loop] by simp
  have cell: "c ! k = Some (max (aligned_dim a (int m - int k)) (aligned_dim b (int m - int k)))
              \<and> \<not> (aligned_dim a (int m - int k) \<noteq> aligned_dim b (int m - int k)
                   \<and> aligned_dim a (int m - int k) > 1 \<and> aligned_dim b (int m - int k) > 1)"
    if "k < m" for k
  proof -
    have "1 \<le> int m - int k \<and> int m - int k \<le> int m" using that by simp
    moreover have "nat (int m - (int m - int k)) = k" by simp
    ultimately show ?thesis using inv by metis
  qed
  define c' where "c' = map the c"
  have c: "c = map Some c'"
  proof (rule nth_equalityI)
    show "length c = length (map Some c')" by (simp add: c'_def)
    fix k assume "k < length c"
    then have "k < m" using inv by simp
    from cell[OF this] \<open>k < length c\<close> show "c ! k = map Some c' ! k"
      by (simp add: c'_def)
  qed
  have len: "length c' = m" using inv by (simp add: c'_def)
  have nm: "?n \<le> m" by (simp add: m_def)
  have "a ! k = 1 \<or> a ! k = c' ! (m - ?n + k)" if k: "k < ?n" for k
  proof -
    let ?j = "int m - int (m - ?n + k)"
    have km: "m - ?n + k < m" using k nm by linarith
    have j: "?j = int ?n - int k" using k nm by linarith
    have a: "aligned_dim a ?j = a ! k" unfolding j using k by (simp add: aligned_dim_def)
    have apos': "0 < a ! k" using apos k by simp
    have bpos': "0 < aligned_dim b ?j"
    proof (rule aligned_dim_pos[OF bpos])
      show "1 \<le> ?j" using j k by linarith
    qed
    have "c' ! (m - ?n + k) = max (a ! k) (aligned_dim b ?j)"
      using cell[OF km] km inv a by (simp add: c'_def)
    moreover have "\<not> (a ! k \<noteq> aligned_dim b ?j \<and> a ! k > 1 \<and> aligned_dim b ?j > 1)"
      using cell[OF km] a by simp
    ultimately show ?thesis using apos' bpos' by (auto simp: max_def)
  qed
  then have "broadcasts_into a c'"
    using nm len by (simp add: broadcasts_into_def list_all2_conv_all_nth)
  then show ?thesis using c isValidBroadcast_iff by blast
qed

text \<open>The theorem at \<open>a = [3,1,2]\<close> and \<open>b = [4,1]\<close>, which broadcast to \<open>[3,4,2]\<close>.\<close>

theorem calcShape_result_accepts_first_operand_witness:
  "calcShape [3, 1, 2] [4, 1] False = Some (map Some [3, 4, 2])
   \<and> isValidBroadcast [3, 1, 2] [3, 4, 2] \<and> broadcasts_into [3, 1, 2] [3, 4, 2]"
proof -
  have r: "calcShape [3, 1, 2] [4, 1] False = Some [Some 3, Some 4, Some 2]"
    by code_simp
  have "\<exists>c'. [Some 3, Some 4, Some 2] = map Some c' \<and> isValidBroadcast [3, 1, 2] c'
          \<and> broadcasts_into [3, 1, 2] c'"
    by (rule calcShape_result_accepts_first_operand[OF _ _ r]) simp_all
  then obtain c' :: "int list" where c': "[Some 3, Some 4, Some 2] = map Some c'"
    and v: "isValidBroadcast [3, 1, 2] c' \<and> broadcasts_into [3, 1, 2] c'" by (elim exE conjE) simp
  from c' have "c' = [3, 4, 2]" by (auto simp: map_eq_Cons_conv)
  with v r show ?thesis by simp
qed

subsection \<open>getShapeOfGemmResult\<close>

text \<open>
  C7. \<open>getShapeOfGemmResult\<close> fails whenever \<open>leftShape\<close> or \<open>rightShape\<close> is not of rank 2.
  Otherwise, with \<open>(M, K)\<close> read from \<open>leftShape\<close> and \<open>(K', N)\<close> from \<open>rightShape\<close>, each
  swapped when its transpose flag is set, it fails if \<open>K\<close> and \<open>K'\<close> differ, if one of \<open>M\<close>,
  \<open>N\<close>, \<open>K\<close> is \<open>0\<close> or less, or if \<open>biasShape\<close> does not broadcast into \<open>[M, N]\<close>, and
  returns \<open>[M, N]\<close> otherwise. \<open>getShapeOfGemmResult([2,3], false, [3,4], false, [1,4])\<close> is
  \<open>[2,4]\<close>, and the shapes \<open>[2,3]\<close> and \<open>[5,4]\<close> fail.
\<close>

theorem getShapeOfGemmResult_spec:
  "(length leftShape \<noteq> 2 \<or> length rightShape \<noteq> 2 \<longrightarrow>
      isl (getShapeOfGemmResult leftShape transLeft rightShape transRight biasShape))
   \<and> (\<forall>l0 l1 r0 r1 M K K' N.
        leftShape = [l0, l1] \<and> rightShape = [r0, r1]
        \<and> (M, K) = (if transLeft then (l1, l0) else (l0, l1))
        \<and> (K', N) = (if transRight then (r1, r0) else (r0, r1)) \<longrightarrow>
        (if K \<noteq> K' \<or> M \<le> 0 \<or> N \<le> 0 \<or> K \<le> 0 \<or> \<not> broadcasts_into biasShape [M, N]
         then isl (getShapeOfGemmResult leftShape transLeft rightShape transRight biasShape)
         else getShapeOfGemmResult leftShape transLeft rightShape transRight biasShape
                = Inr [M, N]))
   \<and> getShapeOfGemmResult [2, 3] False [3, 4] False [1, 4] = Inr [2, 4]
   \<and> isl (getShapeOfGemmResult [2, 3] False [5, 4] False [1, 4])"
proof (intro conjI allI impI)
  assume "length leftShape \<noteq> 2 \<or> length rightShape \<noteq> 2"
  then show "isl (getShapeOfGemmResult leftShape transLeft rightShape transRight biasShape)"
    by (auto simp: getShapeOfGemmResult_def)
next
  fix l0 l1 r0 r1 M K K' N
  assume a: "leftShape = [l0, l1] \<and> rightShape = [r0, r1]
        \<and> (M, K) = (if transLeft then (l1, l0) else (l0, l1))
        \<and> (K', N) = (if transRight then (r1, r0) else (r0, r1))"
  then show "if K \<noteq> K' \<or> M \<le> 0 \<or> N \<le> 0 \<or> K \<le> 0 \<or> \<not> broadcasts_into biasShape [M, N]
         then isl (getShapeOfGemmResult leftShape transLeft rightShape transRight biasShape)
         else getShapeOfGemmResult leftShape transLeft rightShape transRight biasShape
                = Inr [M, N]"
    by (cases transLeft; cases transRight)
       (auto simp: getShapeOfGemmResult_def Let_def isValidBroadcast_iff)
next
  have b: "isValidBroadcast [1, 4] [2, 4]"
    by (simp add: isValidBroadcast_iff broadcasts_into_def)
  show "getShapeOfGemmResult [2, 3] False [3, 4] False [1, 4] = Inr [2, 4]"
    using b by (simp add: getShapeOfGemmResult_def)
  show "isl (getShapeOfGemmResult [2, 3] False [5, 4] False [1, 4])"
    by (simp add: getShapeOfGemmResult_def)
qed

text \<open>
  The theorem at a left shape of rank 3, and at the transposed shapes \<open>[3,2]\<close> and \<open>[4,3]\<close>
  with the bias shapes \<open>[4]\<close> and \<open>[3]\<close>, and at a right shape with a dimension \<open>0\<close>.
\<close>

theorem getShapeOfGemmResult_spec_witness:
  "isl (getShapeOfGemmResult [2, 3, 4] False [3, 4] False [4])
   \<and> getShapeOfGemmResult [3, 2] True [4, 3] True [4] = Inr [2, 4]
   \<and> isl (getShapeOfGemmResult [3, 2] True [4, 3] True [3])
   \<and> isl (getShapeOfGemmResult [2, 3] False [3, 0] False [])"
proof -
  have 1: "isl (getShapeOfGemmResult [2, 3, 4] False [3, 4] False [4])"
    using getShapeOfGemmResult_spec[where leftShape = "[2, 3, 4]"
        and rightShape = "[3, 4]" and transLeft = False and transRight = False
        and biasShape = "[4]"]
      by simp
  have 2: "getShapeOfGemmResult [3, 2] True [4, 3] True [4] = Inr [2, 4]"
    using getShapeOfGemmResult_spec[where leftShape = "[3, 2]"
        and rightShape = "[4, 3]" and transLeft = True and transRight = True
        and biasShape = "[4]"]
      by (simp add: broadcasts_into_def)
  have 3: "isl (getShapeOfGemmResult [3, 2] True [4, 3] True [3])"
    using getShapeOfGemmResult_spec[where leftShape = "[3, 2]"
        and rightShape = "[4, 3]" and transLeft = True and transRight = True
        and biasShape = "[3]"]
      by (simp add: broadcasts_into_def)
  have 4: "isl (getShapeOfGemmResult [2, 3] False [3, 0] False [])"
    using getShapeOfGemmResult_spec[where leftShape = "[2, 3]"
        and rightShape = "[3, 0]" and transLeft = False and transRight = False
        and biasShape = "[]"]
      by (simp add: broadcasts_into_def)
  from 1 2 3 4 show ?thesis by simp
qed

subsection \<open>splitShape\<close>

lemma js_rem_zero_iff: "n \<noteq> 0 \<Longrightarrow> js_rem d n = Some 0 \<longleftrightarrow> n dvd d"
proof -
  assume n: "n \<noteq> 0"
  have "js_rem d n = Some 0 \<longleftrightarrow> d = 0 \<or> \<bar>d\<bar> mod \<bar>n\<bar> = 0"
    using n by (auto simp: js_rem_def sgn_if)
  also have "\<dots> \<longleftrightarrow> \<bar>n\<bar> dvd \<bar>d\<bar>"
    by (auto simp: dvd_eq_mod_eq_0)
  also have "\<dots> \<longleftrightarrow> n dvd d" by simp
  finally show ?thesis .
qed

lemma determineSplit_loop_eq:
  "determineSplit_loop n k i split = split @ replicate (nat (k - i)) (n div k)"
proof (induction n k i split rule: determineSplit_loop.induct)
  case (1 n k i split)
  show ?case
  proof (cases "i < k")
    case False
    then show ?thesis by (subst determineSplit_loop.simps) simp
  next
    case True
    then have "nat (k - i) = Suc (nat (k - (i + 1)))" by linarith
    then show ?thesis
      using True "1.IH" by (subst determineSplit_loop.simps) (simp add: replicate_append_same)
  qed
qed

lemma splitShape_loop_equal_parts:
  assumes "i \<le> m" and "offsets = map (\<lambda>k. int k * p) [0..<max 1 i]"
  shows "splitShape_loop dims axis (replicate m p) i (shapes, offsets)
         = (shapes @ replicate (m - i) (js_set (map Some dims) axis p),
            map (\<lambda>k. int k * p) [0..<max 1 m])"
  using assms
proof (induction dims axis "replicate m p" i "(shapes, offsets)"
       arbitrary: shapes offsets rule: splitShape_loop.induct)
  case (1 dims axis i shapes offsets)
  show ?case
  proof (cases "i < m")
    case False
    with "1.prems" have "i = m" by simp
    then show ?thesis
      using "1.prems" by (subst splitShape_loop.simps) simp
  next
    case True
    define offsets' where
      "offsets' = (if i \<noteq> 0 then offsets @ [offsets ! (i - 1) + replicate m p ! (i - 1)] else offsets)"
    have off: "offsets' = map (\<lambda>k. int k * p) [0..<max 1 (i + 1)]"
    proof (cases "i = 0")
      case True
      then show ?thesis using "1.prems" by (simp add: offsets'_def)
    next
      case False
      then have i: "0 < i" by simp
      have "offsets ! (i - 1) = int (i - 1) * p"
        using "1.prems"(2) i by (simp add: max_def)
      moreover have "replicate m p ! (i - 1) = p" using True i by simp
      ultimately have "offsets ! (i - 1) + replicate m p ! (i - 1) = int i * p"
        using i by (simp add: algebra_simps of_nat_diff)
      then show ?thesis
        using "1.prems"(2) i by (simp add: offsets'_def max_def)
    qed
    have step: "splitShape_loop dims axis (replicate m p) i (shapes, offsets)
      = splitShape_loop dims axis (replicate m p) (i + 1)
          (shapes @ [js_set (map Some dims) axis p], offsets')"
      using True by (subst splitShape_loop.simps) (simp add: Let_def offsets'_def)
    have "splitShape_loop dims axis (replicate m p) (i + 1)
          (shapes @ [js_set (map Some dims) axis p], offsets')
         = ((shapes @ [js_set (map Some dims) axis p])
              @ replicate (m - (i + 1)) (js_set (map Some dims) axis p),
            map (\<lambda>k. int k * p) [0..<max 1 m])"
      using True off
      by (intro "1.hyps"[where xb = "js_set (map Some dims) axis p"]) (auto simp: offsets'_def)
    moreover have "(shapes @ [js_set (map Some dims) axis p])
              @ replicate (m - (i + 1)) (js_set (map Some dims) axis p)
            = shapes @ replicate (m - i) (js_set (map Some dims) axis p)"
      using True by (simp add: replicate_app_Cons_same Suc_diff_Suc flip: replicate_Suc)
    ultimately show ?thesis using step by simp
  qed
qed

text \<open>
  The call with an empty \<open>split\<close> and a number of outputs that divides \<open>dims[axis]\<close>: the
  result, and the contents of the caller's \<open>split\<close> array after the call.
\<close>

lemma splitShape_equal_parts:
  assumes "0 \<le> axis" and "axis < int (length dims)" and "0 < n" and "n dvd dims ! nat axis"
  shows "splitShape dims axis [] (Some n)
         = (Inr (replicate (nat n) (map Some (dims[nat axis := dims ! nat axis div n])),
                 map (\<lambda>k. int k * (dims ! nat axis div n)) [0..<nat n]),
            replicate (nat n) (dims ! nat axis div n))"
proof -
  let ?p = "dims ! nat axis div n"
  have rd: "js_get dims axis = Some (dims ! nat axis)"
    using assms by (simp add: js_get_def)
  have rem: "js_rem (dims ! nat axis) n = Some 0"
    using assms js_rem_zero_iff[of n "dims ! nat axis"] by simp
  have det: "determineSplit (js_get dims axis) n [] = Inr (replicate (nat n) ?p)"
    using rem by (simp add: determineSplit_def rd determineSplit_loop_eq)
  have inside: "nat axis < length dims" using assms by linarith
  have upd: "js_set (map Some dims) axis ?p = map Some (dims[nat axis := ?p])"
    using assms(1) inside by (simp add: js_set_def map_update)
  have m: "max (Suc 0) (nat n) = nat n" using assms by linarith
  have loop: "splitShape_loop dims axis (replicate (nat n) ?p) 0 ([], [0])
        = (replicate (nat n) (map Some (dims[nat axis := ?p])),
           map (\<lambda>k. int k * ?p) [0..<nat n])"
    using splitShape_loop_equal_parts[of 0 "nat n" "[0]" ?p dims axis "[]"]
    by (simp add: upd m)
  show ?thesis
    using assms(3) by (simp add: splitShape_def det loop)
qed



text \<open>
  C9. When \<open>splitShape\<close> is called with an empty \<open>split\<close> and a positive \<open>numOutputs\<close> that
  divides \<open>dims[axis]\<close>, the caller's \<open>split\<close> array holds \<open>numOutputs\<close> copies of
  \<open>dims[axis] / numOutputs\<close> after the call: it is no longer empty.
\<close>

theorem splitShape_mutates_split:
  assumes "0 \<le> axis" and "axis < int (length dims)" and "0 < n" and "n dvd dims ! nat axis"
  shows "snd (splitShape dims axis [] (Some n)) = replicate (nat n) (dims ! nat axis div n)
         \<and> snd (splitShape dims axis [] (Some n)) \<noteq> []"
  using assms by (simp add: splitShape_equal_parts)

text \<open>The theorem at \<open>dims = [1,9,4]\<close>, axis \<open>1\<close> and three outputs.\<close>

theorem splitShape_mutates_split_witness:
  "(3::int) dvd [1, 9, 4] ! nat 1 \<and> snd (splitShape [1, 9, 4] 1 [] (Some 3)) = [3, 3, 3]"
  using splitShape_mutates_split[where dims = "[1, 9, 4]" and axis = 1 and n = 3]
  by (simp add: numeral_3_eq_3)

subsection \<open>Strides, offsets and indices\<close>

text \<open>
  \<open>computeStrides\<close> returns the row-major strides of a shape of rank 1 or more, without a
  hole, when no stride exceeds \<open>2^53\<close>: the products are exact there.
\<close>

lemma row_major_step:
  assumes "Suc k < length shape"
  shows "row_major shape (Suc k) * shape ! Suc k = row_major shape k"
proof -
  have "drop (Suc k) shape = shape ! Suc k # drop (Suc (Suc k)) shape"
    using assms by (simp add: Cons_nth_drop_Suc)
  then show ?thesis by (simp add: row_major_def)
qed

lemma row_major_last: "length shape \<le> Suc k \<Longrightarrow> row_major shape k = 1"
  by (simp add: row_major_def)

lemma computeStrides_loop_result:
  assumes "length strides = length shape" and "- 1 \<le> i" and "i < int (length shape) - 1"
    and "\<forall>k. i < int k \<and> k < length shape \<longrightarrow> strides ! k = Some (row_major shape k)"
    and "\<forall>k < length shape. \<bar>row_major shape k\<bar> \<le> 2 ^ 53"
  shows "computeStrides_loop shape i strides
         = Inr (map (\<lambda>k. Some (row_major shape k)) [0..<length shape])"
  using assms
proof (induction shape i strides rule: computeStrides_loop.induct)
  case (1 shape i strides)
  show ?case
  proof (cases "0 \<le> i")
    case False
    then have "i = - 1" using "1.prems" by simp
    have "strides = map (\<lambda>k. Some (row_major shape k)) [0..<length shape]"
    proof (rule nth_equalityI)
      show "length strides = length (map (\<lambda>k. Some (row_major shape k)) [0..<length shape])"
        using "1.prems" by simp
      fix k assume "k < length strides"
      then show "strides ! k = map (\<lambda>k. Some (row_major shape k)) [0..<length shape] ! k"
        using "1.prems" \<open>i = - 1\<close> by simp
    qed
    then show ?thesis
      using False by (subst computeStrides_loop.simps) simp
  next
    case True
    define k where "k = nat i"
    have k: "i = int k" "Suc k < length shape" using True "1.prems" by (auto simp: k_def)
    have s: "cell strides (i + 1) = Some (row_major shape (Suc k))"
      using k "1.prems" by (simp add: cell_def js_get_def nat_add_distrib)
    have d: "js_get shape (i + 1) = Some (shape ! Suc k)"
      using k by (simp add: js_get_def nat_add_distrib)
    have "\<bar>row_major shape (Suc k) * shape ! Suc k\<bar> \<le> 2 ^ 53"
      using "1.prems"(5) k(2) by (simp add: row_major_step)
    then have m: "num_mul (row_major shape (Suc k)) (shape ! Suc k) = Inr (row_major shape k)"
      using k(2) by (simp add: num_mul_exact row_major_step)
    define strides' where "strides' = js_set strides i (row_major shape k)"
    have strides': "strides' = strides[k := Some (row_major shape k)]"
      using k "1.prems"(1) by (simp add: strides'_def js_set_def)
    have step: "computeStrides_loop shape i strides = computeStrides_loop shape (i - 1) strides'"
      using True by (subst computeStrides_loop.simps) (simp add: s d m strides'_def)
    have "computeStrides_loop shape (i - 1) strides'
          = Inr (map (\<lambda>k. Some (row_major shape k)) [0..<length shape])"
    proof (rule "1.IH"[OF True refl s d m, folded strides'_def])
      show "\<forall>k < length shape. \<bar>row_major shape k\<bar> \<le> 2 ^ 53" by (rule "1.prems"(5))
      show "length strides' = length shape" using "1.prems" by (simp add: strides')
      show "- 1 \<le> i - 1" using True by simp
      show "i - 1 < int (length shape) - 1" using "1.prems" by simp
      show "\<forall>j. i - 1 < int j \<and> j < length shape \<longrightarrow> strides' ! j = Some (row_major shape j)"
      proof (intro allI impI)
        fix j assume j: "i - 1 < int j \<and> j < length shape"
        show "strides' ! j = Some (row_major shape j)"
        proof (cases "j = k")
          case True
          then show ?thesis using k "1.prems"(1) by (simp add: strides')
        next
          case False
          then have "i < int j" using j k by linarith
          then show ?thesis using False j "1.prems"(4) by (simp add: strides')
        qed
      qed
    qed
    with step show ?thesis by simp
  qed
qed

lemma computeStrides_row_major:
  assumes "1 \<le> length shape" and small: "\<forall>k < length shape. \<bar>row_major shape k\<bar> \<le> 2 ^ 53"
  shows "computeStrides shape = Inr (map Some (map (row_major shape) [0..<length shape]))"
proof (cases "length shape < 2")
  case True
  then have "length shape = 1" using assms(1) by simp
  then have "[0..<length shape] = [0]" by simp
  then show ?thesis
    using True by (simp add: computeStrides_def row_major_last)
next
  case False
  define n where "n = length shape"
  have n: "2 \<le> n" using False by (simp add: n_def)
  define strides where
    "strides = js_set (js_set (replicate n None) (int n - 1) 1) (int n - 2) (shape ! (n - 1))"
  have strides: "strides = (replicate n None)[n - 1 := Some 1, n - 2 := Some (shape ! (n - 1))]"
    using n by (simp add: strides_def js_set_def nat_diff_distrib)
  have "computeStrides_loop shape (int n - 3) strides
        = Inr (map (\<lambda>k. Some (row_major shape k)) [0..<length shape])"
  proof (rule computeStrides_loop_result)
    show "\<forall>k < length shape. \<bar>row_major shape k\<bar> \<le> 2 ^ 53" by (rule small)
    show "length strides = length shape" by (simp add: strides n_def)
    show "- 1 \<le> int n - 3" using n by simp
    show "int n - 3 < int (length shape) - 1" by (simp add: n_def)
    show "\<forall>k. int n - 3 < int k \<and> k < length shape \<longrightarrow> strides ! k = Some (row_major shape k)"
    proof (intro allI impI)
      fix k assume k: "int n - 3 < int k \<and> k < length shape"
      then have "k = n - 1 \<or> k = n - 2" using n unfolding n_def by linarith
      then consider "k = n - 1" | "k = n - 2" by blast
      then show "strides ! k = Some (row_major shape k)"
      proof cases
        case 1
        then show ?thesis using n by (simp add: strides row_major_last n_def)
      next
        case 2
        have "row_major shape (n - 2) = row_major shape (Suc (n - 2)) * shape ! Suc (n - 2)"
          using n by (intro row_major_step[symmetric]) (simp add: n_def)
        moreover have "Suc (n - 2) = n - 1" using n by simp
        ultimately have "row_major shape (n - 2) = shape ! (n - 1)"
          by (simp add: row_major_last n_def)
        then show ?thesis using 2 n by (simp add: strides)
      qed
    qed
  qed
  moreover have "nat (int n - 1) = n - 1" by simp
  ultimately show ?thesis
    using False n by (simp add: computeStrides_def Let_def strides_def n_def comp_def)
qed

text \<open>
  For coordinates inside a shape of positive dimensions, the offset contributed from
  position \<open>i\<close> on is not negative and is less than the product of the dimensions from
  \<open>i\<close> on: dividing it by the stride of \<open>i\<close> gives the coordinate at \<open>i\<close>.
\<close>

lemma prod_list_pos: "\<forall>d\<in>set ds. (0::int) < d \<Longrightarrow> 0 < prod_list ds"
  by (induction ds) simp_all

lemma row_major_pos: "\<forall>d\<in>set shape. 0 < d \<Longrightarrow> 0 < row_major shape k"
  unfolding row_major_def by (rule prod_list_pos) (auto dest: in_set_dropD)

lemma prod_list_drop_le:
  assumes "\<forall>d\<in>set ds. (0::int) < d"
  shows "prod_list (drop i ds) \<le> prod_list ds"
proof -
  have t: "0 < prod_list (take i ds)"
    using assms by (intro prod_list_pos) (auto dest: in_set_takeD)
  have d: "0 < prod_list (drop i ds)"
    using assms by (intro prod_list_pos) (auto dest: in_set_dropD)
  have "prod_list ds = prod_list (take i ds @ drop i ds)" by simp
  also have "\<dots> = prod_list (take i ds) * prod_list (drop i ds)" by (rule prod_list.append)
  finally have "prod_list ds = prod_list (take i ds) * prod_list (drop i ds)" .
  moreover have "1 * prod_list (drop i ds) \<le> prod_list (take i ds) * prod_list (drop i ds)"
    using t d by (intro mult_right_mono) simp_all
  ultimately show ?thesis by simp
qed

lemma row_major_small:
  assumes "\<forall>d\<in>set shape. 0 < d" and "prod_list shape \<le> 2 ^ 53"
  shows "\<bar>row_major shape k\<bar> \<le> 2 ^ 53"
proof -
  have "0 < row_major shape k" using assms(1) by (rule row_major_pos)
  moreover have "row_major shape k \<le> prod_list shape"
    unfolding row_major_def using assms(1) by (rule prod_list_drop_le)
  ultimately show ?thesis using assms(2) by simp
qed

lemma tail_offset_unfold:
  "i < length shape \<Longrightarrow>
   tail_offset shape idx i = row_major shape i * idx ! i + tail_offset shape idx (Suc i)"
  by (simp add: tail_offset_def sum.atLeast_Suc_lessThan)

lemma tail_offset_end: "tail_offset shape idx (length shape) = 0"
  by (simp add: tail_offset_def)

lemma tail_offset_bounds:
  assumes pos: "\<forall>d\<in>set shape. 0 < d"
    and valid: "\<forall>k < length shape. 0 \<le> idx ! k \<and> idx ! k < shape ! k"
    and i: "i \<le> length shape"
  shows "0 \<le> tail_offset shape idx i \<and> tail_offset shape idx i < prod_list (drop i shape)"
  using i
proof (induction "length shape - i" arbitrary: i)
  case 0
  then have "i = length shape" by simp
  then show ?case by (simp add: tail_offset_end)
next
  case (Suc m)
  then have i: "i < length shape" by simp
  have IH: "0 \<le> tail_offset shape idx (Suc i)
            \<and> tail_offset shape idx (Suc i) < row_major shape i"
    using Suc.hyps(1)[of "Suc i"] Suc.hyps(2) i by (simp add: row_major_def)
  have s: "0 < row_major shape i" using pos by (rule row_major_pos)
  have x: "0 \<le> idx ! i" "idx ! i + 1 \<le> shape ! i" using valid i by auto
  have "row_major shape i * (idx ! i + 1) \<le> row_major shape i * shape ! i"
    using s x(2) by (intro mult_left_mono) simp_all
  then have up: "row_major shape i * idx ! i + row_major shape i \<le> row_major shape i * shape ! i"
    by (simp add: algebra_simps)
  have "drop i shape = shape ! i # drop (Suc i) shape"
    using i by (simp add: Cons_nth_drop_Suc)
  then have p: "prod_list (drop i shape) = row_major shape i * shape ! i"
    by (simp add: row_major_def)
  have "0 \<le> row_major shape i * idx ! i" using s x(1) by simp
  then show ?case
    using IH up by (simp add: tail_offset_unfold[OF i] p)
qed

lemma indicesToOffset_loop_result:
  assumes len: "length strides = length idx"
    and nonneg: "\<forall>k < length idx - 1. 0 \<le> strides ! k * idx ! k"
    and i: "Suc i \<le> length idx"
    and acc: "0 \<le> acc"
    and bound: "acc + (\<Sum>k = i..<length idx - 1. strides ! k * idx ! k) \<le> 2 ^ 53"
  shows "indicesToOffset_loop idx strides (int i) acc
         = Inr (acc + (\<Sum>k = i..<length idx - 1. strides ! k * idx ! k))"
  using i acc bound
proof (induction "length idx - Suc i" arbitrary: i acc)
  case 0
  then have "\<not> int i < int (length idx) - 1" by simp
  moreover have "{i..<length idx - 1} = {}" using 0 by simp
  ultimately show ?case by (subst indicesToOffset_loop.simps) simp
next
  case (Suc m)
  let ?t = "strides ! i * idx ! i"
  let ?rest = "\<Sum>k = Suc i..<length idx - 1. strides ! k * idx ! k"
  from Suc have i: "int i < int (length idx) - 1" "i < length idx - 1" by auto
  have rd: "js_get strides (int i) = Some (strides ! i)" "js_get idx (int i) = Some (idx ! i)"
    using i len by (simp_all add: js_get_def)
  have split: "(\<Sum>k = i..<length idx - 1. strides ! k * idx ! k) = ?t + ?rest"
    using i(2) by (simp add: sum.atLeast_Suc_lessThan)
  have t0: "0 \<le> ?t" using nonneg i(2) by simp
  have rest0: "0 \<le> ?rest" using nonneg by (intro sum_nonneg) simp
  have total: "acc + ?t + ?rest \<le> 2 ^ 53" using Suc.prems(3) unfolding split by linarith
  have "\<bar>?t\<bar> \<le> 2 ^ 53" using t0 rest0 Suc.prems(2) total by linarith
  then have mul: "num_mul (strides ! i) (idx ! i) = Inr ?t" by (rule num_mul_exact)
  have "\<bar>acc + ?t\<bar> \<le> 2 ^ 53" using t0 rest0 Suc.prems(2) total by linarith
  then have add: "num_add acc ?t = Inr (acc + ?t)" by (rule num_add_exact)
  have "indicesToOffset_loop idx strides (int i) acc
        = indicesToOffset_loop idx strides (int i + 1) (acc + ?t)"
    using i(1) by (subst indicesToOffset_loop.simps) (simp add: rd bindE_def mul add)
  also have "int i + 1 = int (Suc i)" by simp
  also have "indicesToOffset_loop idx strides (int (Suc i)) (acc + ?t)
             = Inr (acc + ?t + ?rest)"
  proof (rule Suc.hyps(1))
    show "m = length idx - Suc (Suc i)" using Suc.hyps(2) by simp
    show "Suc (Suc i) \<le> length idx" using i(2) by simp
    show "0 \<le> acc + ?t" using t0 Suc.prems(2) by simp
    show "acc + ?t + ?rest \<le> 2 ^ 53" by (rule total)
  qed
  finally show ?case unfolding split by (simp only: add.assoc)
qed

lemma indicesToOffset_row_major:
  assumes pos: "\<forall>d\<in>set shape. 0 < d"
    and valid: "\<forall>k < length shape. 0 \<le> idx ! k \<and> idx ! k < shape ! k"
    and len: "length idx = length shape"
    and rank: "1 \<le> length shape"
    and small: "prod_list shape \<le> 2 ^ 53"
  shows "indicesToOffset idx (map (row_major shape) [0..<length shape])
         = Inr (tail_offset shape idx 0)"
proof -
  define n where "n = length shape"
  define strides where "strides = map (row_major shape) [0..<n]"
  have n: "1 \<le> n" "length idx = n" "length strides = n"
    using rank len by (simp_all add: n_def strides_def)
  have last: "js_get idx (int n - 1) = Some (idx ! (n - 1))"
    using n by (simp add: js_get_def nat_diff_distrib)
  have "(\<Sum>k = 0..<length idx - 1. strides ! k * idx ! k)
        = (\<Sum>k = 0..<n - 1. row_major shape k * idx ! k)"
    using n by (intro sum.cong) (simp_all add: strides_def)
  then have "idx ! (n - 1) + (\<Sum>k = 0..<length idx - 1. strides ! k * idx ! k)
        = idx ! (n - 1) + (\<Sum>k = 0..<n - 1. row_major shape k * idx ! k)"
    by simp
  also have "\<dots> = (\<Sum>k = 0..<Suc (n - 1). row_major shape k * idx ! k)"
    using n by (simp add: row_major_last n_def)
  also have "Suc (n - 1) = n" using n by simp
  finally have total: "idx ! (n - 1) + (\<Sum>k = 0..<length idx - 1. strides ! k * idx ! k)
        = tail_offset shape idx 0"
    by (simp add: tail_offset_def n_def)
  have "tail_offset shape idx 0 < prod_list shape"
    using tail_offset_bounds[OF pos valid, of 0] by simp
  then have bound: "idx ! (n - 1) + (\<Sum>k = 0..<length idx - 1. strides ! k * idx ! k) \<le> 2 ^ 53"
    using small unfolding total by linarith
  have nonneg: "\<forall>k < length idx - 1. 0 \<le> strides ! k * idx ! k"
  proof (intro allI impI)
    fix k assume k: "k < length idx - 1"
    then have "0 \<le> idx ! k" using valid n by (simp add: n_def)
    moreover have "0 < row_major shape k" using pos by (rule row_major_pos)
    ultimately show "0 \<le> strides ! k * idx ! k" using k n by (simp add: strides_def)
  qed
  have acc: "0 \<le> idx ! (n - 1)" using valid n by (simp add: n_def)
  have "indicesToOffset idx strides
        = indicesToOffset_loop idx strides (int 0) (idx ! (n - 1))"
    using n by (simp add: indicesToOffset_def last)
  also have "\<dots> = Inr (idx ! (n - 1) + (\<Sum>k = 0..<length idx - 1. strides ! k * idx ! k))"
  proof (rule indicesToOffset_loop_result)
    show "length strides = length idx" using n by simp
    show "\<forall>k < length idx - 1. 0 \<le> strides ! k * idx ! k" by (rule nonneg)
    show "Suc 0 \<le> length idx" using n by simp
    show "0 \<le> idx ! (n - 1)" by (rule acc)
    show "idx ! (n - 1) + (\<Sum>k = 0..<length idx - 1. strides ! k * idx ! k) \<le> 2 ^ 53"
      by (rule bound)
  qed
  finally have "indicesToOffset idx strides = Inr (tail_offset shape idx 0)"
    unfolding total .
  then show ?thesis unfolding strides_def n_def .
qed

text \<open>
  The loop of \<open>offsetToIndices\<close> started at the offset of an index vector: round \<open>i\<close> finds
  the coordinate at \<open>i\<close> and leaves the offset contributed by the positions after \<open>i\<close>.
\<close>

lemma offsetToIndices_loop_result:
  assumes pos: "\<forall>d\<in>set shape. 0 < d"
    and valid: "\<forall>k < length shape. 0 \<le> idx ! k \<and> idx ! k < shape ! k"
    and len: "length idx = length shape"
    and small: "prod_list shape \<le> 2 ^ 53"
    and i: "Suc i \<le> length shape"
  shows "offsetToIndices_loop (map (row_major shape) [0..<length shape]) (int i)
           (tail_offset shape idx i)
           (map Some (take i idx) @ replicate (length shape - i) None)
         = Inr (tail_offset shape idx (length shape - 1),
                map Some (take (length shape - 1) idx) @ [None])"
  using i
proof (induction "length shape - Suc i" arbitrary: i)
  case 0
  then have i: "i = length shape - 1" "1 \<le> length shape" by simp_all
  have "length shape - i = 1" using i by simp
  moreover have "\<not> int i < int (length (map Some (take i idx) @ replicate (length shape - i) None)) - 1"
    using i len by simp
  ultimately show ?case
    using i by (subst offsetToIndices_loop.simps) simp
next
  case (Suc m)
  let ?n = "length shape"
  let ?s = "row_major shape i"
  define strides where "strides = map (row_major shape) [0..<?n]"
  define indices where "indices = map Some (take i idx) @ replicate (?n - i) None"
  define indices' where "indices' = map Some (take (Suc i) idx) @ replicate (?n - Suc i) None"
  from Suc have i: "Suc i < ?n" by simp
  have guard: "int i < int (length indices) - 1" using i len by (simp add: indices_def)
  have rd: "js_get strides (int i) = Some ?s" using i by (simp add: js_get_def strides_def)
  have s: "0 < ?s" using pos by (rule row_major_pos)
  have T: "tail_offset shape idx i = ?s * idx ! i + tail_offset shape idx (Suc i)"
    using i by (simp add: tail_offset_unfold)
  have b: "0 \<le> tail_offset shape idx (Suc i) \<and> tail_offset shape idx (Suc i) < ?s"
    using tail_offset_bounds[OF pos valid, of "Suc i"] i by (simp add: row_major_def)
  have q: "tail_offset shape idx i div ?s = idx ! i"
    using s b by (simp add: T)
  have rest: "tail_offset shape idx i - idx ! i * ?s = tail_offset shape idx (Suc i)"
    by (simp add: T)
  have Ti: "0 \<le> tail_offset shape idx i" "tail_offset shape idx i < 2 ^ 53"
  proof -
    have b': "0 \<le> tail_offset shape idx i \<and> tail_offset shape idx i < prod_list (drop i shape)"
      using tail_offset_bounds[OF pos valid, of i] i by simp
    then show "0 \<le> tail_offset shape idx i" by simp
    have "prod_list (drop i shape) \<le> prod_list shape" using pos by (rule prod_list_drop_le)
    then show "tail_offset shape idx i < 2 ^ 53" using b' small by linarith
  qed
  have s53: "?s \<le> 2 ^ 53" using row_major_small[OF pos small, of i] by simp
  have x0: "0 \<le> idx ! i" using valid i by simp
  have fd: "num_floor_div (tail_offset shape idx i) ?s = Inr (idx ! i)"
    using num_floor_div_exact[OF Ti s s53] by (simp add: q)
  have "0 \<le> idx ! i * ?s" using x0 s by simp
  moreover have "idx ! i * ?s \<le> tail_offset shape idx i" using b by (simp add: T mult.commute)
  ultimately have "\<bar>idx ! i * ?s\<bar> \<le> 2 ^ 53" using Ti(2) by linarith
  then have mul: "num_mul (idx ! i) ?s = Inr (idx ! i * ?s)" by (rule num_mul_exact)
  have "\<bar>tail_offset shape idx i - idx ! i * ?s\<bar> \<le> 2 ^ 53"
    using b Ti(2) \<open>idx ! i * ?s \<le> tail_offset shape idx i\<close> \<open>0 \<le> idx ! i * ?s\<close> by linarith
  then have sub: "num_sub (tail_offset shape idx i) (idx ! i * ?s)
                  = Inr (tail_offset shape idx (Suc i))"
    using num_sub_exact[of "tail_offset shape idx i" "idx ! i * ?s"] by (simp add: rest)
  have "?n - i = Suc (?n - Suc i)" using i by simp
  then have "indices = map Some (take i idx) @ None # replicate (?n - Suc i) None"
    by (simp add: indices_def)
  moreover have "length (map Some (take i idx)) = i" using i len by simp
  ultimately have "indices[i := Some (idx ! i)]
        = map Some (take i idx) @ Some (idx ! i) # replicate (?n - Suc i) None"
    by (metis list_update_length)
  also have "\<dots> = indices'"
    using i len by (simp add: take_Suc_conv_app_nth indices'_def)
  finally have "indices[i := Some (idx ! i)] = indices'" .
  moreover have "i < length indices" using i len by (simp add: indices_def)
  ultimately have upd: "js_set indices (int i) (idx ! i) = indices'"
    by (simp add: js_set_def)
  have "offsetToIndices_loop strides (int i) (tail_offset shape idx i) indices
        = offsetToIndices_loop strides (int i + 1) (tail_offset shape idx (Suc i)) indices'"
    using guard
    by (subst offsetToIndices_loop.simps) (simp add: rd fd mul sub upd bindE_def)
  also have "int i + 1 = int (Suc i)" by simp
  also have "offsetToIndices_loop strides (int (Suc i)) (tail_offset shape idx (Suc i)) indices'
        = Inr (tail_offset shape idx (?n - 1), map Some (take (?n - 1) idx) @ [None])"
    unfolding strides_def indices'_def
    using Suc.hyps(2) i by (intro Suc.hyps(1)) simp_all
  finally show ?case unfolding strides_def indices_def .
qed

lemma tail_offset_last:
  assumes "1 \<le> length shape"
  shows "tail_offset shape idx (length shape - 1) = idx ! (length shape - 1)"
proof -
  have "length shape - 1 < length shape" using assms by simp
  then have "tail_offset shape idx (length shape - 1)
        = row_major shape (length shape - 1) * idx ! (length shape - 1)
          + tail_offset shape idx (Suc (length shape - 1))"
    by (rule tail_offset_unfold)
  moreover have "Suc (length shape - 1) = length shape" using assms by simp
  ultimately show ?thesis
    by (simp add: tail_offset_end row_major_last)
qed

lemma offsetToIndices_row_major:
  assumes pos: "\<forall>d\<in>set shape. 0 < d"
    and valid: "\<forall>k < length shape. 0 \<le> idx ! k \<and> idx ! k < shape ! k"
    and len: "length idx = length shape"
    and n: "1 \<le> length shape"
    and small: "prod_list shape \<le> 2 ^ 53"
  shows "offsetToIndices (tail_offset shape idx 0) (map (row_major shape) [0..<length shape])
         = Inr (map Some idx)"
proof (cases "length shape = 1")
  case True
  then obtain x where x: "idx = [x]" using len by (cases idx) simp_all
  have "tail_offset shape idx 0 = idx ! 0"
    using tail_offset_last[of shape idx] True by simp
  then show ?thesis using True by (simp add: offsetToIndices_def x)
next
  case False
  let ?n = "length shape"
  have n2: "2 \<le> ?n" using False n by simp
  have loop: "offsetToIndices_loop (map (row_major shape) [0..<?n]) 0 (tail_offset shape idx 0)
           (replicate ?n None)
         = Inr (tail_offset shape idx (?n - 1), map Some (take (?n - 1) idx) @ [None])"
    using offsetToIndices_loop_result[OF pos valid len small, of 0] n by simp
  have l: "length (map Some (take (?n - 1) idx) @ [None]) = ?n" using n len by simp
  have ne: "shape \<noteq> []" using n by auto
  have "nat (int ?n - 1) = ?n - 1" by simp
  then have "js_set (map Some (take (?n - 1) idx) @ [None])
          (int (length (map Some (take (?n - 1) idx) @ [None])) - 1) (idx ! (?n - 1))
        = (map Some (take (?n - 1) idx) @ [None])[?n - 1 := Some (idx ! (?n - 1))]"
    unfolding l using n l ne by (simp add: js_set_def del: length_append length_map length_take)
  also have "\<dots> = map Some (take (?n - 1) idx) @ [Some (idx ! (?n - 1))]"
    using n len by (simp add: list_update_append)
  also have "\<dots> = map Some (take (?n - 1) idx @ [idx ! (?n - 1)])"
    by simp
  also have "take (?n - 1) idx @ [idx ! (?n - 1)] = take (Suc (?n - 1)) idx"
    using n len by (intro take_Suc_conv_app_nth[symmetric]) simp
  also have "Suc (?n - 1) = ?n" using n by simp
  also have "take ?n idx = idx" using len by simp
  finally have fin: "js_set (map Some (take (?n - 1) idx) @ [None])
          (int (length (map Some (take (?n - 1) idx) @ [None])) - 1) (idx ! (?n - 1))
        = map Some idx" .
  have unfold: "offsetToIndices off strides
        = (case offsetToIndices_loop strides 0 off (replicate (length strides) None) of
             Inl e \<Rightarrow> Inl e
           | Inr (offset', indices) \<Rightarrow> Inr (js_set indices (int (length indices) - 1) offset'))"
    if "2 \<le> length strides" for off strides
  proof -
    from that have "length strides \<noteq> 0" "length strides \<noteq> 1" by linarith+
    then show ?thesis unfolding offsetToIndices_def Let_def by (simp only: if_False)
  qed
  have lm: "length (map (row_major shape) [0..<?n]) = ?n" by simp
  have "offsetToIndices (tail_offset shape idx 0) (map (row_major shape) [0..<?n])
        = Inr (js_set (map Some (take (?n - 1) idx) @ [None])
                 (int (length (map Some (take (?n - 1) idx) @ [None])) - 1)
                 (tail_offset shape idx (?n - 1)))"
    using n2 by (subst unfold) (simp_all only: lm loop sum.case prod.case)
  then show ?thesis
    by (simp only: tail_offset_last[OF n] fin)
qed

text \<open>
  C5. The claim: for every shape of positive integers of rank 1 or more and every index
  vector of the same rank whose coordinates lie inside the shape,
  \<open>offsetToIndices(indicesToOffset(idx, strides), strides)\<close> is \<open>idx\<close> under the strides
  of \<open>computeStrides\<close>. The numbers of the program are doubles: at the shape
  \<open>[2147483647, 2147483647]\<close> and the index vector \<open>[4194305, 1]\<close> the product
  \<open>2147483647 * 4194305\<close> is odd and above \<open>2^53\<close>, it rounds to \<open>9007201398030336\<close>, the
  coordinate \<open>1\<close> added to it is lost, and the round trip returns \<open>[4194305, 0]\<close>.
\<close>

theorem offsetToIndices_loses_index_above_2_53:
  "computeStrides [2147483647, 2147483647] = Inr [Some 2147483647, Some 1]
   \<and> indicesToOffset [4194305, 1] [2147483647, 1] = Inr 9007201398030336
   \<and> offsetToIndices 9007201398030336 [2147483647, 1] = Inr [Some 4194305, Some 0]"
  by code_simp

text \<open>
  C5, amended. For a shape of positive integers of rank 1 or more whose size, the product
  of its dimensions, is at most \<open>2^53\<close>, and an index vector of the same rank whose
  coordinates lie inside the shape, \<open>computeStrides\<close> returns strides without a hole,
  \<open>indicesToOffset\<close> returns an offset under them, and \<open>offsetToIndices\<close> at that offset
  returns the index vector. With empty strides \<open>indicesToOffset\<close> returns \<open>0\<close> for every
  index vector, the empty one included, and \<open>offsetToIndices\<close> returns the empty vector
  for every offset.
\<close>

theorem offsetToIndices_inverts_indicesToOffset:
  assumes "\<forall>d\<in>set shape. 0 < d" and "1 \<le> length shape" and "length idx = length shape"
    and "\<forall>k < length shape. 0 \<le> idx ! k \<and> idx ! k < shape ! k"
    and "prod_list shape \<le> 2 ^ 53"
  shows "(\<exists>strides off.
            computeStrides shape = Inr (map Some strides)
            \<and> indicesToOffset idx strides = Inr off
            \<and> offsetToIndices off strides = Inr (map Some idx))
         \<and> indicesToOffset idx' [] = Inr 0
         \<and> offsetToIndices off' [] = Inr []"
proof -
  have small: "\<forall>k < length shape. \<bar>row_major shape k\<bar> \<le> 2 ^ 53"
    using row_major_small[OF assms(1,5)] by simp
  have "computeStrides shape = Inr (map Some (map (row_major shape) [0..<length shape]))"
    using assms(2) small by (rule computeStrides_row_major)
  moreover have "indicesToOffset idx (map (row_major shape) [0..<length shape])
                 = Inr (tail_offset shape idx 0)"
    using assms(1,4,3,2,5) by (rule indicesToOffset_row_major)
  moreover have "offsetToIndices (tail_offset shape idx 0) (map (row_major shape) [0..<length shape])
                 = Inr (map Some idx)"
    using assms(1,4,3,2,5) by (rule offsetToIndices_row_major)
  ultimately have "\<exists>strides off.
            computeStrides shape = Inr (map Some strides)
            \<and> indicesToOffset idx strides = Inr off
            \<and> offsetToIndices off strides = Inr (map Some idx)"
    by blast
  then show ?thesis
    by (simp add: indicesToOffset_def offsetToIndices_def)
qed

text \<open>
  The theorem at the shape \<open>[2,3,4]\<close>, of size \<open>24\<close>, and the index vector \<open>[1,2,3]\<close>, of
  offset \<open>23\<close>; and at the empty index vector for empty strides.
\<close>

theorem offsetToIndices_inverts_indicesToOffset_witness:
  "computeStrides [2, 3, 4] = Inr (map Some [12, 4, 1])
   \<and> indicesToOffset [1, 2, 3] [12, 4, 1] = Inr 23
   \<and> offsetToIndices 23 [12, 4, 1] = Inr (map Some [1, 2, 3])
   \<and> indicesToOffset [] [] = Inr 0
   \<and> offsetToIndices 7 [] = Inr []"
proof -
  have valid: "\<forall>k < length [2, 3, 4 :: int]. 0 \<le> [1, 2, 3 :: int] ! k \<and> [1, 2, 3] ! k < [2, 3, 4 :: int] ! k"
    by (simp add: nth_Cons' less_Suc_eq numeral_3_eq_3)
  have t: "(\<exists>strides off.
            computeStrides [2, 3, 4] = Inr (map Some strides)
            \<and> indicesToOffset [1, 2, 3] strides = Inr off
            \<and> offsetToIndices off strides = Inr (map Some [1, 2, 3]))
         \<and> indicesToOffset [] [] = Inr 0
         \<and> offsetToIndices 7 [] = Inr []"
    using offsetToIndices_inverts_indicesToOffset
      [where shape = "[2, 3, 4]" and idx = "[1, 2, 3]" and idx' = "[]" and off' = 7, OF _ _ _ valid]
    by simp
  then obtain strides :: "int list" and off :: int where
    s: "computeStrides [2, 3, 4] = Inr (map Some strides)"
    and o: "indicesToOffset [1, 2, 3] strides = Inr off"
    and r: "offsetToIndices off strides = Inr (map Some [1, 2, 3])"
    by (elim exE conjE)
  have cs: "computeStrides [2, 3, 4] = Inr [Some 12, Some 4, Some 1]"
    by code_simp
  with s have strides: "strides = [12, 4, 1]" by (auto simp: map_eq_Cons_conv)
  have "indicesToOffset [1, 2, 3] [12, 4, 1] = Inr 23" by code_simp
  with o strides have off: "off = 23" by simp
  from cs o r t show ?thesis by (simp add: strides off)
qed

end
